theory Spec2Isabelle
  imports Main
begin

section \<open>Python values kept in the metadata\<close>

text \<open>
  The synchronisation threads of \<^verbatim>\<open>aws_ui.py\<close> keep, for every object key, what they
  last saw of the object. The values they store and compare are Python scalars: \<^verbatim>\<open>None\<close>,
  integers, strings, and the \<^verbatim>\<open>datetime\<close> objects the storage client reports as
  \<^verbatim>\<open>LastModified\<close> (\<^verbatim>\<open>aws.py\<close> calls \<^verbatim>\<open>strftime\<close> on them). A \<^verbatim>\<open>datetime\<close> is
  represented by its instant. Python's \<^verbatim>\<open>==\<close> between values of two different of these
  types is false, and within one type it is equality of the value, which is equality of
  the datatype.
\<close>

datatype pyval = PNone | PInt int | PStr string | PDatetime int

text \<open>
  A stored entry is either a dictionary of fields (\<^verbatim>\<open>isinstance(stored_info, dict)\<close>) or
  anything else, which the code treats as a bare timestamp of the legacy format.
\<close>

datatype stored_info = InfoDict "(string \<times> pyval) list" | InfoLegacy pyval

text \<open>
  Python dictionaries are insertion ordered with unique keys: association lists, read
  with \<open>map_of\<close>. \<open>dict_get\<close> is \<^verbatim>\<open>d.get(k)\<close>, \<open>dict_set\<close> is \<^verbatim>\<open>d[k] = v\<close>.
\<close>

definition dict_get :: "(string \<times> pyval) list \<Rightarrow> string \<Rightarrow> pyval" where
  "dict_get d k = (case map_of d k of None \<Rightarrow> PNone | Some v \<Rightarrow> v)"

fun dict_set :: "string \<Rightarrow> 'v \<Rightarrow> (string \<times> 'v) list \<Rightarrow> (string \<times> 'v) list" where
  "dict_set k v [] = [(k, v)]"
| "dict_set k v ((k', v') # d) = (if k' = k then (k, v) # d else (k', v') # dict_set k v d)"

text \<open>An entry of a listing page, as the client returns it.\<close>

record s3_object =
  obj_key :: string
  obj_last_modified :: pyval
  obj_size :: "int option"
  obj_etag :: "string option"

definition strip_quotes :: "string \<Rightarrow> string" where
  "strip_quotes s =
     rev (dropWhile (\<lambda>c. c = CHR 0x22) (rev (dropWhile (\<lambda>c. c = CHR 0x22) s)))"

definition size_of :: "s3_object \<Rightarrow> int" where
  "size_of obj = (case obj_size obj of None \<Rightarrow> 0 | Some n \<Rightarrow> n)"

definition etag_of :: "s3_object \<Rightarrow> string" where
  "etag_of obj = strip_quotes (case obj_etag obj of None \<Rightarrow> [] | Some e \<Rightarrow> e)"

section \<open>Change detection\<close>

text \<open>
  \<^verbatim>\<open>s3_monitor_thread\<close>, lines 136 to 152. The code sets \<^verbatim>\<open>file_changed\<close> and, only
  together with it, \<^verbatim>\<open>reason\<close>; the result is the reason when \<^verbatim>\<open>file_changed\<close> is
  true and \<open>None\<close> when it is false.
\<close>

definition monitor_detect ::
  "(string \<times> stored_info) list \<Rightarrow> string \<Rightarrow> pyval \<Rightarrow> string \<Rightarrow> string option" where
  "monitor_detect last_seen key last_modified etag =
     (case map_of last_seen key of
        None \<Rightarrow> Some ''new file''
      | Some stored \<Rightarrow>
          (case stored of
             InfoDict d \<Rightarrow>
               if dict_get d ''last_modified'' \<noteq> last_modified \<or> dict_get d ''etag'' \<noteq> PStr etag
               then Some ''file modified'' else None
           | InfoLegacy t \<Rightarrow>
               if t \<noteq> last_modified then Some ''file modified (legacy check)'' else None))"

text \<open>
  \<^verbatim>\<open>s3_backup_thread\<close>, lines 285 to 302: \<^verbatim>\<open>needs_backup\<close> and \<^verbatim>\<open>backup_reason\<close>; the
  reason starts as \<^verbatim>\<open>"new file"\<close> and keeps that value when no backup is needed.
\<close>

definition backup_detect ::
  "(string \<times> stored_info) list \<Rightarrow> string \<Rightarrow> pyval \<Rightarrow> string \<Rightarrow> bool \<times> string" where
  "backup_detect backup_history key last_modified etag =
     (case map_of backup_history key of
        None \<Rightarrow> (True, ''new file'')
      | Some stored \<Rightarrow>
          (case stored of
             InfoDict d \<Rightarrow>
               if dict_get d ''last_modified'' = last_modified \<and> dict_get d ''etag'' = PStr etag
               then (False, ''new file'') else (True, ''file modified'')
           | InfoLegacy t \<Rightarrow>
               if t = last_modified
               then (False, ''new file'') else (True, ''file modified (legacy)'')))"

text \<open>The classification as the specification words it.\<close>

datatype change = New | Modified | Unchanged

definition classify_spec :: "stored_info option \<Rightarrow> pyval \<Rightarrow> string \<Rightarrow> change" where
  "classify_spec stored last_modified etag =
     (case stored of
        None \<Rightarrow> New
      | Some (InfoLegacy t) \<Rightarrow> if t \<noteq> last_modified then Modified else Unchanged
      | Some (InfoDict d) \<Rightarrow>
          if dict_get d ''last_modified'' \<noteq> last_modified \<or> dict_get d ''etag'' \<noteq> PStr etag
          then Modified else Unchanged)"

section \<open>Paths\<close>

text \<open>
  \<^verbatim>\<open>os.path.join\<close> of two components and \<^verbatim>\<open>os.path.basename\<close>, as \<^verbatim>\<open>posixpath\<close>
  defines them, and the relative path the threads derive from a key:
  \<^verbatim>\<open>key[len(prefix):] if key.startswith(prefix) else key\<close>.
\<close>

definition path_join :: "string \<Rightarrow> string \<Rightarrow> string" where
  "path_join a b =
     (if b \<noteq> [] \<and> hd b = CHR ''/'' then b
      else if a = [] \<or> last a = CHR ''/'' then a @ b
      else a @ ''/'' @ b)"

definition basename :: "string \<Rightarrow> string" where
  "basename p = rev (takeWhile (\<lambda>c. c \<noteq> CHR ''/'') (rev p))"

definition rel_path :: "string \<Rightarrow> string \<Rightarrow> string" where
  "rel_path prefix key =
     (if take (length prefix) key = prefix then drop (length prefix) key else key)"

section \<open>The state the threads work on\<close>

text \<open>
  A file of the local tree is known by what the code reads of it: its size
  (\<^verbatim>\<open>os.path.getsize\<close>) and its MD5 digest (\<^verbatim>\<open>calculate_file_hash\<close>, which returns
  \<^verbatim>\<open>None\<close> when the file cannot be read). Directories are not represented:
  \<^verbatim>\<open>os.makedirs\<close> changes nothing here and can only fail.
\<close>

record local_file =
  file_size :: int
  file_md5 :: "string option"

text \<open>
  The metadata document, \<^verbatim>\<open>{bucket, prefix, last_backup, files}\<close>. The text of the file
  \<^verbatim>\<open>.backup_metadata.json\<close> is represented by the document it denotes, or is an
  incomplete text that \<^verbatim>\<open>json.load\<close> rejects. The metadata file and the backup log are
  kept apart from the mirrored files: no listed key is taken to be mirrored onto them.
\<close>

record document =
  doc_bucket :: string
  doc_prefix :: string
  doc_last_backup :: string
  doc_files :: "(string \<times> stored_info) list"

datatype json_file = JsonText document | Incomplete

text \<open>
  What the threads do to the outside, in order: calls of \<^verbatim>\<open>download_file\<close> (key and
  destination), \<^verbatim>\<open>time.sleep\<close> (seconds), \<^verbatim>\<open>os.rename\<close> and \<^verbatim>\<open>stop_event.is_set\<close>.
\<close>

datatype effect =
    Download string string
  | Sleep nat
  | Rename string string
  | StopCheck

text \<open>The lines appended to the logs, by the message and the values it carries.\<close>

datatype log_entry =
    LogChecked string
  | LogDownloaded string string string
  | LogDownloadFailed string string
  | LogScanComplete nat nat
  | LogCycleError nat string
  | LogIntervalIncreased nat
  | LogStopped
  | LogBackupStarted nat
  | LogStopRequested
  | LogVersioned string string
  | LogVersionFailed string string
  | LogBackedUp string string string
  | LogRetry nat string
  | LogGaveUp string
  | LogBackupFailed string string
  | LogSkipped string
  | LogBackupCompleted nat
  | LogFilesBackedUp nat
  | LogFilesSkipped nat
  | LogTotalSize int
  | LogNextBackup nat
  | LogSaveError string
  | LogLoadError string

record world =
  files :: "string \<rightharpoonup> local_file"
  meta_files :: "string \<rightharpoonup> json_file"
  backup_metadata :: "(string \<times> stored_info) list"
  main_log :: "log_entry list"
  effects :: "effect list"

record monitor_state = world +
  last_seen :: "(string \<times> stored_info) list"
  monitor_log :: "log_entry list"
  stats_checked :: nat
  stats_downloaded :: nat
  stats_errors :: nat
  files_checked :: nat
  files_downloaded :: nat
  m_consecutive_errors :: nat
  m_interval :: nat

record backup_state = world +
  backup_history :: "(string \<times> stored_info) list"
  backup_log :: "log_entry list"
  stats_total_backups :: nat
  stats_last_backup :: "string option"
  stats_files_backed_up :: nat
  backup_count :: nat
  files_backed_up :: nat
  files_skipped :: nat
  total_size :: int
  b_consecutive_errors :: nat
  b_interval :: nat

section \<open>What the environment decides\<close>

text \<open>
  A call of \<^verbatim>\<open>download_file\<close> either raises, leaving the destination as it was, or
  returns with a file at the destination.
\<close>

datatype download_result = Raises string | Writes local_file

text \<open>
  For one listed object: whether the stop event is set when the loop reaches it, whether
  creating the destination's directory raises, the result of each download attempt, the
  clock at each attempt, and, for the backup, whether creating \<^verbatim>\<open>.versions\<close> raises,
  whether \<^verbatim>\<open>os.rename\<close> raises, and the \<^verbatim>\<open>%Y%m%d_%H%M%S\<close> time stamp.
\<close>

record object_env =
  stop_requested :: bool
  makedirs_error :: "string option"
  download :: "nat \<Rightarrow> download_result"
  clock :: "nat \<Rightarrow> string"
  versions_error :: "string option"
  rename_error :: "string option"
  stamp :: string

text \<open>
  A step of the paginator: it raises, or yields a page, with or without \<^verbatim>\<open>Contents\<close>.
  The flag of a page is the stop event when the backup reaches the page.
\<close>

datatype page =
    ListingError string
  | Page bool "(s3_object \<times> object_env) list option"

text \<open>
  For one turn of a thread's loop: the pages the paginator yields, the clock and the
  failure of \<^verbatim>\<open>os.makedirs\<close> or \<^verbatim>\<open>open\<close> when the metadata is saved, the clock at the
  start of a backup, and the stop event at each turn of the backup's wait.
\<close>

record cycle_env =
  pages :: "page list"
  save_clock :: string
  save_error :: "string option"
  start_clock :: string
  wait_stop :: "nat \<Rightarrow> bool"

section \<open>Helper functions of the source\<close>

definition validate_file_integrity :: "(string \<rightharpoonup> local_file) \<Rightarrow> string \<Rightarrow> int \<Rightarrow> bool" where
  "validate_file_integrity fs local_path expected_size =
     (case fs local_path of None \<Rightarrow> False | Some f \<Rightarrow> file_size f = expected_size)"

definition calculate_file_hash :: "(string \<rightharpoonup> local_file) \<Rightarrow> string \<Rightarrow> string option" where
  "calculate_file_hash fs file_path =
     (case fs file_path of None \<Rightarrow> None | Some f \<Rightarrow> file_md5 f)"

text \<open>
  \<^verbatim>\<open>json.dump\<close> writes the text piece by piece and raises \<^verbatim>\<open>TypeError\<close> at the first
  value it cannot encode, a \<^verbatim>\<open>datetime\<close> among them.
\<close>

fun json_encodable :: "pyval \<Rightarrow> bool" where
  "json_encodable (PDatetime t) = False"
| "json_encodable v = True"

fun info_encodable :: "stored_info \<Rightarrow> bool" where
  "info_encodable (InfoDict d) = list_all (\<lambda>kv. json_encodable (snd kv)) d"
| "info_encodable (InfoLegacy v) = json_encodable v"

definition json_dump :: "document \<Rightarrow> string + json_file" where
  "json_dump doc =
     (if list_all (\<lambda>kv. info_encodable (snd kv)) (doc_files doc) then Inr (JsonText doc)
      else Inl ''Object of type datetime is not JSON serializable'')"

definition metadata_path :: "string \<Rightarrow> string" where
  "metadata_path local_folder = path_join local_folder ''.backup_metadata.json''"

text \<open>
  \<^verbatim>\<open>save_backup_metadata\<close>: the document is built from the session's
  \<^verbatim>\<open>backup_metadata\<close>; any exception is logged and swallowed. \<open>io_error\<close> is the failure of
  \<^verbatim>\<open>os.makedirs\<close> or \<^verbatim>\<open>open\<close>, before anything is written; a failure of \<^verbatim>\<open>json.dump\<close>
  comes after \<^verbatim>\<open>open\<close> has truncated the file.
\<close>

definition save_backup_metadata ::
  "string \<Rightarrow> string option \<Rightarrow> string \<Rightarrow> string \<Rightarrow> string \<Rightarrow> 'a world_scheme \<Rightarrow> 'a world_scheme" where
  "save_backup_metadata now io_error bucket prefix local_folder w =
     (let metadata_file = metadata_path local_folder;
          metadata = \<lparr>doc_bucket = bucket, doc_prefix = prefix, doc_last_backup = now,
                      doc_files = backup_metadata w\<rparr>
      in case io_error of
           Some e \<Rightarrow> w\<lparr>main_log := main_log w @ [LogSaveError e]\<rparr>
         | None \<Rightarrow>
             (case json_dump metadata of
                Inl e \<Rightarrow> w\<lparr>meta_files := (meta_files w)(metadata_file \<mapsto> Incomplete),
                           main_log := main_log w @ [LogSaveError e]\<rparr>
              | Inr text \<Rightarrow> w\<lparr>meta_files := (meta_files w)(metadata_file \<mapsto> text)\<rparr>))"

text \<open>
  \<^verbatim>\<open>load_backup_metadata\<close>: the loaded document, or \<open>None\<close> for the empty dictionary the
  code returns when the file is absent or cannot be parsed.
\<close>

definition load_backup_metadata ::
  "string \<Rightarrow> 'a world_scheme \<Rightarrow> document option \<times> 'a world_scheme" where
  "load_backup_metadata local_folder w =
     (case meta_files w (metadata_path local_folder) of
        None \<Rightarrow> (None, w)
      | Some (JsonText doc) \<Rightarrow> (Some doc, w)
      | Some Incomplete \<Rightarrow>
          (None, w\<lparr>main_log := main_log w @ [LogLoadError ''JSONDecodeError'']\<rparr>))"

section \<open>The monitor thread\<close>

definition max_retries :: nat where
  "max_retries = 3"

text \<open>
  The body of \<^verbatim>\<open>for attempt in range(max_retries)\<close>, lines 165 to 191. It ends in
  \<^verbatim>\<open>break\<close> (\<open>None\<close>) or in an exception (\<open>Some\<close>). The entry of the key is stored
  inside the branch of a passed size check; the log line after it slices the hash and
  raises \<^verbatim>\<open>TypeError\<close> when \<^verbatim>\<open>calculate_file_hash\<close> returned \<^verbatim>\<open>None\<close>.
\<close>

definition monitor_attempt ::
  "s3_object \<Rightarrow> string \<Rightarrow> string \<Rightarrow> object_env \<Rightarrow> nat \<Rightarrow> monitor_state
     \<Rightarrow> string option \<times> monitor_state" where
  "monitor_attempt obj local_path reason env attempt st =
     (let key = obj_key obj; size = size_of obj;
          st0 = st\<lparr>effects := effects st @ [Download key local_path]\<rparr>
      in case download env attempt of
           Raises e \<Rightarrow> (Some e, st0)
         | Writes f \<Rightarrow>
             (let st1 = st0\<lparr>files := (files st0)(local_path \<mapsto> f)\<rparr>
              in if validate_file_integrity (files st1) local_path size then
                   (let file_hash = calculate_file_hash (files st1) local_path;
                        st2 = st1\<lparr>last_seen := dict_set key
                                 (InfoDict [(''last_modified'', obj_last_modified obj),
                                            (''etag'', PStr (etag_of obj)),
                                            (''size'', PInt size),
                                            (''hash'', case file_hash of None \<Rightarrow> PNone
                                                       | Some h \<Rightarrow> PStr h),
                                            (''downloaded_at'', PStr (clock env attempt))])
                                 (last_seen st1),
                               files_downloaded := files_downloaded st1 + 1,
                               stats_downloaded := stats_downloaded st1 + 1\<rparr>
                    in case file_hash of
                         None \<Rightarrow> (Some ''TypeError: NoneType object is not subscriptable'', st2)
                       | Some h \<Rightarrow>
                           (None, st2\<lparr>monitor_log := monitor_log st2 @
                                        [LogDownloaded key local_path reason]\<rparr>))
                 else (Some ''File integrity check failed'', st1)))"

text \<open>
  The loop over the attempts with its handler, lines 164 to 196: the last attempt
  re-raises, an earlier one sleeps \<^verbatim>\<open>2 ** attempt\<close> seconds and goes on.
\<close>

fun monitor_attempts ::
  "s3_object \<Rightarrow> string \<Rightarrow> string \<Rightarrow> object_env \<Rightarrow> nat list \<Rightarrow> monitor_state
     \<Rightarrow> string option \<times> monitor_state" where
  "monitor_attempts obj local_path reason env [] st = (None, st)"
| "monitor_attempts obj local_path reason env (attempt # rest) st =
     (case monitor_attempt obj local_path reason env attempt st of
        (None, st') \<Rightarrow> (None, st')
      | (Some download_error, st') \<Rightarrow>
          if attempt = max_retries - 1 then (Some download_error, st')
          else monitor_attempts obj local_path reason env rest
                 (st'\<lparr>effects := effects st' @ [Sleep (2 ^ attempt)]\<rparr>))"

text \<open>The \<^verbatim>\<open>try\<close> block of lines 158 to 196.\<close>

definition monitor_download ::
  "s3_object \<Rightarrow> string \<Rightarrow> string \<Rightarrow> object_env \<Rightarrow> monitor_state
     \<Rightarrow> string option \<times> monitor_state" where
  "monitor_download obj local_path reason env st =
     (case makedirs_error env of
        Some e \<Rightarrow> (Some e, st)
      | None \<Rightarrow> monitor_attempts obj local_path reason env [0..<max_retries] st)"

text \<open>One listed object, lines 125 to 200, after the stop check.\<close>

definition monitor_object ::
  "bool \<Rightarrow> string \<Rightarrow> string \<Rightarrow> s3_object \<Rightarrow> object_env \<Rightarrow> monitor_state \<Rightarrow> monitor_state" where
  "monitor_object verbose prefix local_folder obj env st =
     (let key = obj_key obj;
          st1 = st\<lparr>files_checked := files_checked st + 1,
                   stats_checked := stats_checked st + 1\<rparr>;
          st2 = (if verbose then st1\<lparr>monitor_log := monitor_log st1 @ [LogChecked key]\<rparr>
                 else st1)
      in case monitor_detect (last_seen st2) key (obj_last_modified obj) (etag_of obj) of
           None \<Rightarrow> st2
         | Some reason \<Rightarrow>
             (let local_path = path_join local_folder (rel_path prefix key)
              in case monitor_download obj local_path reason env st2 of
                   (None, st3) \<Rightarrow> st3
                 | (Some e, st3) \<Rightarrow>
                     st3\<lparr>monitor_log := monitor_log st3 @ [LogDownloadFailed key e],
                         stats_errors := stats_errors st3 + 1\<rparr>))"

text \<open>The loop over the objects of a page; a set stop event leaves this loop only.\<close>

fun monitor_objects ::
  "bool \<Rightarrow> string \<Rightarrow> string \<Rightarrow> (s3_object \<times> object_env) list \<Rightarrow> monitor_state
     \<Rightarrow> monitor_state" where
  "monitor_objects verbose prefix local_folder [] st = st"
| "monitor_objects verbose prefix local_folder ((obj, env) # rest) st =
     (let st' = st\<lparr>effects := effects st @ [StopCheck]\<rparr>
      in if stop_requested env then st'
         else monitor_objects verbose prefix local_folder rest
                (monitor_object verbose prefix local_folder obj env st'))"

text \<open>The loop over the pages; an exception of the paginator leaves the \<^verbatim>\<open>try\<close> block.\<close>

fun monitor_pages ::
  "bool \<Rightarrow> string \<Rightarrow> string \<Rightarrow> page list \<Rightarrow> monitor_state \<Rightarrow> string option \<times> monitor_state" where
  "monitor_pages verbose prefix local_folder [] st = (None, st)"
| "monitor_pages verbose prefix local_folder (ListingError e # rest) st = (Some e, st)"
| "monitor_pages verbose prefix local_folder (Page stop contents # rest) st =
     monitor_pages verbose prefix local_folder rest
       (case contents of
          None \<Rightarrow> st
        | Some objs \<Rightarrow> monitor_objects verbose prefix local_folder objs st)"

definition monitor_max_errors :: nat where
  "monitor_max_errors = 5"

text \<open>
  One turn of \<^verbatim>\<open>while not stop_event.is_set()\<close> up to the sleep, lines 108 to 218. The
  counter of consecutive errors is set to zero as the first statement of the \<^verbatim>\<open>try\<close>
  block; \<open>monitor_pass\<close> is the block up to the end of its loops, and the metadata is
  saved after them, inside the block.
\<close>

definition monitor_pass ::
  "bool \<Rightarrow> string \<Rightarrow> string \<Rightarrow> cycle_env \<Rightarrow> monitor_state \<Rightarrow> string option \<times> monitor_state" where
  "monitor_pass verbose prefix local_folder env st =
     monitor_pages verbose prefix local_folder (pages env)
       (st\<lparr>m_consecutive_errors := 0, files_checked := 0, files_downloaded := 0\<rparr>)"

definition monitor_cycle ::
  "bool \<Rightarrow> string \<Rightarrow> string \<Rightarrow> string \<Rightarrow> cycle_env \<Rightarrow> monitor_state \<Rightarrow> monitor_state" where
  "monitor_cycle verbose bucket prefix local_folder env st =
     (case monitor_pass verbose prefix local_folder env st of
        (None, st1) \<Rightarrow>
          (let st2 = save_backup_metadata (save_clock env) (save_error env) bucket prefix
                       local_folder (st1\<lparr>backup_metadata := last_seen st1\<rparr>)
           in if verbose \<and> files_checked st2 > 0
              then st2\<lparr>monitor_log := monitor_log st2 @
                         [LogScanComplete (files_checked st2) (files_downloaded st2)]\<rparr>
              else st2)
      | (Some e, st1) \<Rightarrow>
          (let st2 = st1\<lparr>m_consecutive_errors := m_consecutive_errors st1 + 1\<rparr>;
               st3 = st2\<lparr>monitor_log := monitor_log st2 @
                          [LogCycleError (m_consecutive_errors st2) e],
                        stats_errors := stats_errors st2 + 1\<rparr>
           in if m_consecutive_errors st3 \<ge> monitor_max_errors
              then (let st4 = st3\<lparr>m_interval := min (m_interval st3 * 2) 300\<rparr>
                    in st4\<lparr>monitor_log := monitor_log st4 @
                              [LogIntervalIncreased (m_interval st4)],
                            m_consecutive_errors := 0\<rparr>)
              else st3))"

text \<open>The wait between two cycles, line 220: one call of \<^verbatim>\<open>time.sleep(interval)\<close>.\<close>

definition monitor_wait :: "nat \<Rightarrow> effect list" where
  "monitor_wait interval = [Sleep interval]"

text \<open>
  The \<^verbatim>\<open>while\<close> loop over a finite run of cycles: each turn starts with the stop check,
  whose result comes with the turn's environment. When the run is used up the thread is
  still in its loop.
\<close>

fun monitor_loop ::
  "bool \<Rightarrow> string \<Rightarrow> string \<Rightarrow> string \<Rightarrow> (bool \<times> cycle_env) list \<Rightarrow> monitor_state
     \<Rightarrow> monitor_state" where
  "monitor_loop verbose bucket prefix local_folder [] st = st"
| "monitor_loop verbose bucket prefix local_folder ((stop, env) # rest) st =
     (let st' = st\<lparr>effects := effects st @ [StopCheck]\<rparr>
      in if stop then st'\<lparr>monitor_log := monitor_log st' @ [LogStopped]\<rparr>
         else (let st1 = monitor_cycle verbose bucket prefix local_folder env st'
               in monitor_loop verbose bucket prefix local_folder rest
                    (st1\<lparr>effects := effects st1 @ monitor_wait (m_interval st1)\<rparr>)))"

section \<open>The backup thread\<close>

text \<open>
  \<^verbatim>\<open>write_log\<close> appends the line to the session log and to \<^verbatim>\<open>backup_log.txt\<close>, and
  swallows a failure of the file; the line's time stamp prefix is left out, and so is
  the line that reports the duration of a backup.
\<close>

definition write_log :: "log_entry \<Rightarrow> backup_state \<Rightarrow> backup_state" where
  "write_log message st = st\<lparr>backup_log := backup_log st @ [message]\<rparr>"

definition versions_path :: "string \<Rightarrow> string \<Rightarrow> string \<Rightarrow> string" where
  "versions_path local_folder rel timestamp =
     path_join (path_join local_folder ''.versions'') (basename rel @ ''_'' @ timestamp)"

text \<open>
  Lines 308 to 319. The existing file is renamed into \<^verbatim>\<open>.versions\<close>; only the rename is
  inside a \<^verbatim>\<open>try\<close>, so a failure to create the directory leaves the cycle's \<^verbatim>\<open>try\<close>
  block (\<open>Some\<close>).
\<close>

definition backup_version ::
  "string \<Rightarrow> string \<Rightarrow> string \<Rightarrow> object_env \<Rightarrow> backup_state \<Rightarrow> string option \<times> backup_state" where
  "backup_version local_folder rel local_path env st =
     (if files st local_path \<noteq> None then
        (case versions_error env of
           Some e \<Rightarrow> (Some e, st)
         | None \<Rightarrow>
             (let backup_filename = basename rel @ ''_'' @ stamp env;
                  backup_path = versions_path local_folder rel (stamp env);
                  st1 = st\<lparr>effects := effects st @ [Rename local_path backup_path]\<rparr>
              in case rename_error env of
                   None \<Rightarrow>
                     (None, write_log (LogVersioned rel backup_filename)
                        (st1\<lparr>files := ((files st1)(local_path := None))
                                         (backup_path := files st1 local_path)\<rparr>))
                 | Some e \<Rightarrow> (None, write_log (LogVersionFailed rel e) st1)))
      else (None, st))"

text \<open>The body of the attempt loop, lines 330 to 356.\<close>

definition backup_attempt ::
  "s3_object \<Rightarrow> string \<Rightarrow> string \<Rightarrow> object_env \<Rightarrow> nat \<Rightarrow> backup_state
     \<Rightarrow> string option \<times> backup_state" where
  "backup_attempt obj local_path backup_reason env attempt st =
     (let key = obj_key obj; size = size_of obj;
          st0 = st\<lparr>effects := effects st @ [Download key local_path]\<rparr>
      in case download env attempt of
           Raises e \<Rightarrow> (Some e, st0)
         | Writes f \<Rightarrow>
             (let st1 = st0\<lparr>files := (files st0)(local_path \<mapsto> f)\<rparr>
              in if validate_file_integrity (files st1) local_path size then
                   (let file_hash = calculate_file_hash (files st1) local_path;
                        st2 = st1\<lparr>backup_history := dict_set key
                                 (InfoDict [(''last_modified'', obj_last_modified obj),
                                            (''etag'', PStr (etag_of obj)),
                                            (''size'', PInt size),
                                            (''hash'', case file_hash of None \<Rightarrow> PNone
                                                       | Some h \<Rightarrow> PStr h),
                                            (''backed_up_at'', PStr (clock env attempt)),
                                            (''backup_count'', PInt (int (backup_count st1)))])
                                 (backup_history st1),
                               files_backed_up := files_backed_up st1 + 1,
                               total_size := total_size st1 + size,
                               stats_files_backed_up := stats_files_backed_up st1 + 1\<rparr>
                    in case file_hash of
                         None \<Rightarrow> (Some ''TypeError: NoneType object is not subscriptable'', st2)
                       | Some h \<Rightarrow>
                           (None, write_log (LogBackedUp key local_path backup_reason) st2))
                 else (Some ''File integrity check failed'', st1)))"

text \<open>
  The attempt loop with its handler, lines 329 to 362. The second component is
  \<^verbatim>\<open>download_success\<close>.
\<close>

fun backup_attempts ::
  "s3_object \<Rightarrow> string \<Rightarrow> string \<Rightarrow> object_env \<Rightarrow> nat list \<Rightarrow> backup_state
     \<Rightarrow> string option \<times> bool \<times> backup_state" where
  "backup_attempts obj local_path backup_reason env [] st = (None, False, st)"
| "backup_attempts obj local_path backup_reason env (attempt # rest) st =
     (case backup_attempt obj local_path backup_reason env attempt st of
        (None, st') \<Rightarrow> (None, True, st')
      | (Some download_error, st') \<Rightarrow>
          if attempt = max_retries - 1 then (Some download_error, False, st')
          else backup_attempts obj local_path backup_reason env rest
                 (write_log (LogRetry (attempt + 1) (obj_key obj))
                    (st'\<lparr>effects := effects st' @ [Sleep (2 ^ attempt)]\<rparr>)))"

text \<open>The \<^verbatim>\<open>try\<close> block of lines 321 to 365.\<close>

definition backup_download ::
  "s3_object \<Rightarrow> string \<Rightarrow> string \<Rightarrow> object_env \<Rightarrow> backup_state
     \<Rightarrow> string option \<times> backup_state" where
  "backup_download obj local_path backup_reason env st =
     (case makedirs_error env of
        Some e \<Rightarrow> (Some e, st)
      | None \<Rightarrow>
          (case backup_attempts obj local_path backup_reason env [0..<max_retries] st of
             (Some e, download_success, st') \<Rightarrow> (Some e, st')
           | (None, download_success, st') \<Rightarrow>
               (None, if \<not> download_success then write_log (LogGaveUp (obj_key obj)) st'
                      else st')))"

text \<open>
  One listed object, lines 280 to 373, after the stop check. \<open>Some\<close> is an exception
  that no handler inside the loops catches.
\<close>

definition backup_object ::
  "bool \<Rightarrow> string \<Rightarrow> string \<Rightarrow> s3_object \<Rightarrow> object_env \<Rightarrow> backup_state
     \<Rightarrow> string option \<times> backup_state" where
  "backup_object verbose prefix local_folder obj env st =
     (let key = obj_key obj
      in case backup_detect (backup_history st) key (obj_last_modified obj) (etag_of obj) of
           (True, backup_reason) \<Rightarrow>
             (let rel = rel_path prefix key;
                  local_path = path_join local_folder rel
              in case backup_version local_folder rel local_path env st of
                   (Some e, st1) \<Rightarrow> (Some e, st1)
                 | (None, st1) \<Rightarrow>
                     (case backup_download obj local_path backup_reason env st1 of
                        (None, st2) \<Rightarrow> (None, st2)
                      | (Some e, st2) \<Rightarrow>
                          (None, (write_log (LogBackupFailed key e) st2)
                                   \<lparr>b_consecutive_errors := b_consecutive_errors st2 + 1\<rparr>)))
         | (False, backup_reason) \<Rightarrow>
             (let st1 = st\<lparr>files_skipped := files_skipped st + 1\<rparr>
              in (None, if verbose then write_log (LogSkipped key) st1 else st1)))"

fun backup_objects ::
  "bool \<Rightarrow> string \<Rightarrow> string \<Rightarrow> (s3_object \<times> object_env) list \<Rightarrow> backup_state
     \<Rightarrow> string option \<times> backup_state" where
  "backup_objects verbose prefix local_folder [] st = (None, st)"
| "backup_objects verbose prefix local_folder ((obj, env) # rest) st =
     (let st' = st\<lparr>effects := effects st @ [StopCheck]\<rparr>
      in if stop_requested env then (None, st')
         else (case backup_object verbose prefix local_folder obj env st' of
                 (Some e, st1) \<Rightarrow> (Some e, st1)
               | (None, st1) \<Rightarrow> backup_objects verbose prefix local_folder rest st1))"

text \<open>The loop over the pages, lines 270 to 373; a set stop event leaves it.\<close>

fun backup_pages ::
  "bool \<Rightarrow> string \<Rightarrow> string \<Rightarrow> page list \<Rightarrow> backup_state \<Rightarrow> string option \<times> backup_state" where
  "backup_pages verbose prefix local_folder [] st = (None, st)"
| "backup_pages verbose prefix local_folder (ListingError e # rest) st = (Some e, st)"
| "backup_pages verbose prefix local_folder (Page stop contents # rest) st =
     (let st' = st\<lparr>effects := effects st @ [StopCheck]\<rparr>
      in if stop then (None, write_log LogStopRequested st')
         else (case contents of
                 None \<Rightarrow> backup_pages verbose prefix local_folder rest st'
               | Some objs \<Rightarrow>
                   (case backup_objects verbose prefix local_folder objs st' of
                      (Some e, st1) \<Rightarrow> (Some e, st1)
                    | (None, st1) \<Rightarrow> backup_pages verbose prefix local_folder rest st1)))"

definition backup_max_errors :: nat where
  "backup_max_errors = 3"

text \<open>
  One turn of the backup's \<^verbatim>\<open>while\<close> loop up to the wait, lines 256 to 400. Here too
  the counter is set to zero at the start of the \<^verbatim>\<open>try\<close> block (\<open>backup_pass\<close> is the
  block up to the end of its loops), and the save is inside the block, after the loops.
\<close>

definition backup_pass ::
  "bool \<Rightarrow> string \<Rightarrow> string \<Rightarrow> cycle_env \<Rightarrow> backup_state \<Rightarrow> string option \<times> backup_state" where
  "backup_pass verbose prefix local_folder env st =
     (let st0 = st\<lparr>backup_count := backup_count st + 1, files_backed_up := 0,
                   files_skipped := 0, total_size := 0\<rparr>;
          st1 = (write_log (LogBackupStarted (backup_count st0)) st0)
                  \<lparr>b_consecutive_errors := 0\<rparr>
      in backup_pages verbose prefix local_folder (pages env) st1)"

definition backup_cycle ::
  "bool \<Rightarrow> string \<Rightarrow> string \<Rightarrow> string \<Rightarrow> cycle_env \<Rightarrow> backup_state \<Rightarrow> backup_state" where
  "backup_cycle verbose bucket prefix local_folder env st =
     (case backup_pass verbose prefix local_folder env st of
        (None, st2) \<Rightarrow>
          (let st3 = st2\<lparr>stats_total_backups := stats_total_backups st2 + 1,
                        stats_last_backup := Some (start_clock env)\<rparr>;
               st4 = save_backup_metadata (save_clock env) (save_error env) bucket prefix
                       local_folder (st3\<lparr>backup_metadata := backup_history st3\<rparr>)
           in st4\<lparr>backup_log := backup_log st4 @
                     [LogBackupCompleted (backup_count st4),
                      LogFilesBackedUp (files_backed_up st4),
                      LogFilesSkipped (files_skipped st4),
                      LogTotalSize (total_size st4),
                      LogNextBackup (b_interval st4)]\<rparr>)
      | (Some e, st2) \<Rightarrow>
          (let st3 = st2\<lparr>b_consecutive_errors := b_consecutive_errors st2 + 1\<rparr>;
               st4 = write_log (LogCycleError (b_consecutive_errors st3) e) st3
           in if b_consecutive_errors st4 \<ge> backup_max_errors
              then (let st5 = st4\<lparr>b_interval := min (b_interval st4 * 2) 60\<rparr>
                    in (write_log (LogIntervalIncreased (b_interval st5)) st5)
                         \<lparr>b_consecutive_errors := 0\<rparr>)
              else st4))"

text \<open>
  The wait between two backups, lines 403 to 406: \<^verbatim>\<open>interval * 60\<close> turns, each
  checking the stop event and then sleeping one second. \<open>stop i\<close> is the stop event at
  turn \<open>i\<close>.
\<close>

fun backup_wait_turns :: "(nat \<Rightarrow> bool) \<Rightarrow> nat list \<Rightarrow> effect list" where
  "backup_wait_turns stop [] = []"
| "backup_wait_turns stop (i # rest) =
     (if stop i then [StopCheck] else StopCheck # Sleep 1 # backup_wait_turns stop rest)"

definition backup_wait :: "(nat \<Rightarrow> bool) \<Rightarrow> nat \<Rightarrow> effect list" where
  "backup_wait stop interval = backup_wait_turns stop [0..<interval * 60]"

fun backup_loop ::
  "bool \<Rightarrow> string \<Rightarrow> string \<Rightarrow> string \<Rightarrow> (bool \<times> cycle_env) list \<Rightarrow> backup_state
     \<Rightarrow> backup_state" where
  "backup_loop verbose bucket prefix local_folder [] st = st"
| "backup_loop verbose bucket prefix local_folder ((stop, env) # rest) st =
     (let st' = st\<lparr>effects := effects st @ [StopCheck]\<rparr>
      in if stop then write_log LogStopped st'
         else (let st1 = backup_cycle verbose bucket prefix local_folder env st'
               in backup_loop verbose bucket prefix local_folder rest
                    (st1\<lparr>effects := effects st1 @ backup_wait (wait_stop env) (b_interval st1)\<rparr>)))"

section \<open>Starting a thread\<close>

text \<open>
  The start of \<^verbatim>\<open>s3_monitor_thread\<close>, lines 93 to 105: the entries of the loaded document
  are merged into the session's dictionary (\<^verbatim>\<open>dict.update\<close>). The session counters and
  the log are those of a page that has just initialised them; the line logged at the
  start is left out.
\<close>

definition dict_update :: "(string \<times> 'v) list \<Rightarrow> (string \<times> 'v) list \<Rightarrow> (string \<times> 'v) list" where
  "dict_update d other = fold (\<lambda>kv acc. dict_set (fst kv) (snd kv) acc) other d"

definition monitor_start ::
  "string \<Rightarrow> nat \<Rightarrow> (string \<times> stored_info) list \<Rightarrow> world \<Rightarrow> monitor_state" where
  "monitor_start local_folder interval session_last w =
     (case load_backup_metadata local_folder w of
        (metadata, w') \<Rightarrow>
          \<lparr>files = files w', meta_files = meta_files w', backup_metadata = backup_metadata w',
           main_log = main_log w', effects = effects w',
           last_seen = (case metadata of None \<Rightarrow> session_last
                        | Some doc \<Rightarrow> dict_update session_last (doc_files doc)),
           monitor_log = [], stats_checked = 0, stats_downloaded = 0, stats_errors = 0,
           files_checked = 0, files_downloaded = 0,
           m_consecutive_errors = 0, m_interval = interval\<rparr>)"

text \<open>The start of \<^verbatim>\<open>s3_backup_thread\<close>, lines 243 to 253.\<close>

definition backup_start :: "string \<Rightarrow> nat \<Rightarrow> world \<Rightarrow> backup_state" where
  "backup_start local_folder interval w =
     (case load_backup_metadata local_folder w of
        (metadata, w') \<Rightarrow>
          \<lparr>files = files w', meta_files = meta_files w', backup_metadata = backup_metadata w',
           main_log = main_log w', effects = effects w',
           backup_history = (case metadata of None \<Rightarrow> [] | Some doc \<Rightarrow> doc_files doc),
           backup_log = [], stats_total_backups = 0, stats_last_backup = None,
           stats_files_backed_up = 0,
           backup_count = 0, files_backed_up = 0, files_skipped = 0, total_size = 0,
           b_consecutive_errors = 0, b_interval = interval\<rparr>)"

definition empty_world :: world where
  "empty_world = \<lparr>files = Map.empty, meta_files = Map.empty, backup_metadata = [],
                   main_log = [], effects = []\<rparr>"

text \<open>
  The two thread functions over a finite run of turns: the start, then the loop. The
  arguments \<^verbatim>\<open>s3_client\<close>, \<^verbatim>\<open>log_key\<close>, \<^verbatim>\<open>last_key\<close> and \<^verbatim>\<open>stop_event\<close> are the
  environment and the fields of the state.
\<close>

definition s3_monitor_thread ::
  "string \<Rightarrow> string \<Rightarrow> string \<Rightarrow> nat \<Rightarrow> (string \<times> stored_info) list \<Rightarrow> bool
     \<Rightarrow> (bool \<times> cycle_env) list \<Rightarrow> world \<Rightarrow> monitor_state" where
  "s3_monitor_thread bucket prefix local_folder interval session_last verbose run w =
     monitor_loop verbose bucket prefix local_folder run
       (monitor_start local_folder interval session_last w)"

definition s3_backup_thread ::
  "string \<Rightarrow> string \<Rightarrow> string \<Rightarrow> nat \<Rightarrow> bool \<Rightarrow> (bool \<times> cycle_env) list \<Rightarrow> world
     \<Rightarrow> backup_state" where
  "s3_backup_thread bucket prefix local_folder interval verbose run w =
     backup_loop verbose bucket prefix local_folder run (backup_start local_folder interval w)"

section \<open>Example inputs\<close>

text \<open>
  A listed object \<^verbatim>\<open>a.txt\<close> of three bytes, and environments in which every download of
  it succeeds, raises, or writes a file of the wrong size.
\<close>

definition a_txt :: s3_object where
  "a_txt = \<lparr>obj_key = ''a.txt'', obj_last_modified = PDatetime 100, obj_size = Some 3,
            obj_etag = Some (CHR 0x22 # ''e1'' @ [CHR 0x22])\<rparr>"

definition abc_file :: local_file where
  "abc_file = \<lparr>file_size = 3, file_md5 = Some ''900150983cd24fb0d6963f7d28e17f72''\<rparr>"

definition ab_file :: local_file where
  "ab_file = \<lparr>file_size = 2, file_md5 = Some ''187ef4436122d1cc2f40dc2b92f0eba0''\<rparr>"

definition env_ok :: object_env where
  "env_ok = \<lparr>stop_requested = False, makedirs_error = None,
             download = (\<lambda>attempt. Writes abc_file), clock = (\<lambda>attempt. ''2024-01-01T00:00:00''),
             versions_error = None, rename_error = None, stamp = ''20240101_000000''\<rparr>"

definition env_raising :: object_env where
  "env_raising = env_ok\<lparr>download := (\<lambda>attempt. Raises ''ReadTimeoutError'')\<rparr>"

definition env_short :: object_env where
  "env_short = env_ok\<lparr>download := (\<lambda>attempt. Writes ab_file)\<rparr>"

definition cycle_of :: "page list \<Rightarrow> cycle_env" where
  "cycle_of ps = \<lparr>pages = ps, save_clock = ''2024-01-01T00:00:01'', save_error = None,
                  start_clock = ''2024-01-01T00:00:00'', wait_stop = (\<lambda>i. False)\<rparr>"

section \<open>Notions used to state the properties\<close>

text \<open>The objects a run of the paginator lists, and where an object is mirrored.\<close>

fun page_entries :: "page \<Rightarrow> (s3_object \<times> object_env) list" where
  "page_entries (ListingError e) = []"
| "page_entries (Page stop None) = []"
| "page_entries (Page stop (Some objs)) = objs"

definition entries :: "page list \<Rightarrow> (s3_object \<times> object_env) list" where
  "entries ps = concat (map page_entries ps)"

definition listed :: "page list \<Rightarrow> s3_object list" where
  "listed ps = map fst (entries ps)"

definition local_path_of :: "string \<Rightarrow> string \<Rightarrow> s3_object \<Rightarrow> string" where
  "local_path_of prefix local_folder obj = path_join local_folder (rel_path prefix (obj_key obj))"

text \<open>Where the backup archives the file of an object, given the time stamp it reads.\<close>

definition archive_path_of :: "string \<Rightarrow> string \<Rightarrow> s3_object \<times> object_env \<Rightarrow> string" where
  "archive_path_of prefix local_folder oe =
     versions_path local_folder (rel_path prefix (obj_key (fst oe))) (stamp (snd oe))"

text \<open>
  What a pass of the monitor leaves alone: the interval, the error counter, the metadata
  files and the session's copy, the main log, every stored key (its entry may change only
  for a key in \<open>K\<close>), and every file outside \<open>P\<close>.
\<close>

definition monitor_frame ::
  "string set \<Rightarrow> string set \<Rightarrow> monitor_state \<Rightarrow> monitor_state \<Rightarrow> bool" where
  "monitor_frame K P st st' \<longleftrightarrow>
     m_interval st' = m_interval st \<and> m_consecutive_errors st' = m_consecutive_errors st
     \<and> meta_files st' = meta_files st \<and> backup_metadata st' = backup_metadata st
     \<and> main_log st' = main_log st
     \<and> (\<forall>k. map_of (last_seen st) k \<noteq> None \<longrightarrow> map_of (last_seen st') k \<noteq> None)
     \<and> (\<forall>k. k \<notin> K \<longrightarrow> map_of (last_seen st') k = map_of (last_seen st) k)
     \<and> (\<forall>p. p \<notin> P \<longrightarrow> files st' p = files st p)"

text \<open>The same for a pass of the backup, which does change its error counter.\<close>

definition backup_frame ::
  "string set \<Rightarrow> string set \<Rightarrow> backup_state \<Rightarrow> backup_state \<Rightarrow> bool" where
  "backup_frame K P st st' \<longleftrightarrow>
     b_interval st' = b_interval st \<and> backup_count st' = backup_count st
     \<and> meta_files st' = meta_files st \<and> backup_metadata st' = backup_metadata st
     \<and> main_log st' = main_log st
     \<and> b_consecutive_errors st \<le> b_consecutive_errors st'
     \<and> (\<forall>k. map_of (backup_history st) k \<noteq> None \<longrightarrow> map_of (backup_history st') k \<noteq> None)
     \<and> (\<forall>k. k \<notin> K \<longrightarrow> map_of (backup_history st') k = map_of (backup_history st) k)
     \<and> (\<forall>p. p \<notin> P \<longrightarrow> files st' p = files st p)"


text \<open>The entry the monitor stores for \<^verbatim>\<open>a.txt\<close> after a verified download.\<close>

definition a_txt_entry :: stored_info where
  "a_txt_entry = InfoDict [(''last_modified'', PDatetime 100), (''etag'', PStr ''e1''),
                           (''size'', PInt 3),
                           (''hash'', PStr ''900150983cd24fb0d6963f7d28e17f72''),
                           (''downloaded_at'', PStr ''2024-01-01T00:00:00'')]"

section \<open>Notions used to state the retry properties\<close>

text \<open>
  Whether the file an attempt writes has the reported size; the exception an attempt
  ends with, if any; the number of attempts the loop makes; and the entries the threads
  store.
\<close>

definition size_verified :: "s3_object \<Rightarrow> object_env \<Rightarrow> nat \<Rightarrow> bool" where
  "size_verified obj env attempt =
     (case download env attempt of
        Raises e \<Rightarrow> False
      | Writes f \<Rightarrow> file_size f = size_of obj)"

definition attempt_error :: "s3_object \<Rightarrow> object_env \<Rightarrow> nat \<Rightarrow> string option" where
  "attempt_error obj env attempt =
     (case download env attempt of
        Raises e \<Rightarrow> Some e
      | Writes f \<Rightarrow>
          if file_size f \<noteq> size_of obj then Some ''File integrity check failed''
          else if file_md5 f = None then Some ''TypeError: NoneType object is not subscriptable''
          else None)"

definition attempts_made :: "s3_object \<Rightarrow> object_env \<Rightarrow> nat" where
  "attempts_made obj env =
     (if attempt_error obj env 0 = None then 1
      else if attempt_error obj env 1 = None then 2 else 3)"

definition monitor_entry :: "s3_object \<Rightarrow> local_file \<Rightarrow> string \<Rightarrow> stored_info" where
  "monitor_entry obj f now =
     InfoDict [(''last_modified'', obj_last_modified obj), (''etag'', PStr (etag_of obj)),
               (''size'', PInt (size_of obj)),
               (''hash'', case file_md5 f of None \<Rightarrow> PNone | Some h \<Rightarrow> PStr h),
               (''downloaded_at'', PStr now)]"

definition backup_entry :: "s3_object \<Rightarrow> local_file \<Rightarrow> string \<Rightarrow> nat \<Rightarrow> stored_info" where
  "backup_entry obj f now n =
     InfoDict [(''last_modified'', obj_last_modified obj), (''etag'', PStr (etag_of obj)),
               (''size'', PInt (size_of obj)),
               (''hash'', case file_md5 f of None \<Rightarrow> PNone | Some h \<Rightarrow> PStr h),
               (''backed_up_at'', PStr now), (''backup_count'', PInt (int n))]"

text \<open>
  The schedule of the specification for \<open>n\<close> attempts: attempt \<open>i\<close>, counted from one,
  is preceded, from the second on, by a delay of \<open>2 ^ (i - 2)\<close>.
\<close>

definition schedule :: "string \<Rightarrow> string \<Rightarrow> nat \<Rightarrow> effect list" where
  "schedule key local_path n =
     concat (map (\<lambda>i. (if 2 \<le> i then [Sleep (2 ^ (i - 2))] else []) @ [Download key local_path])
                 [1..<Suc n])"

text \<open>What the versioning step of the backup adds to the effects and to the log.\<close>

definition version_effects :: "string \<Rightarrow> string \<Rightarrow> s3_object \<Rightarrow> object_env \<Rightarrow> backup_state \<Rightarrow> effect list" where
  "version_effects prefix local_folder obj env st =
     (if files st (local_path_of prefix local_folder obj) \<noteq> None
      then [Rename (local_path_of prefix local_folder obj) (archive_path_of prefix local_folder (obj, env))]
      else [])"

definition version_log :: "string \<Rightarrow> string \<Rightarrow> s3_object \<Rightarrow> object_env \<Rightarrow> backup_state \<Rightarrow> log_entry list" where
  "version_log prefix local_folder obj env st =
     (if files st (local_path_of prefix local_folder obj) \<noteq> None
      then [case rename_error env of
              None \<Rightarrow> LogVersioned (rel_path prefix (obj_key obj))
                        (basename (rel_path prefix (obj_key obj)) @ ''_'' @ stamp env)
            | Some e \<Rightarrow> LogVersionFailed (rel_path prefix (obj_key obj)) e]
      else [])"



section \<open>Notions used to state idempotence\<close>

text \<open>
  A stop event that is set from turn \<open>n\<close> of a wait on; the download calls among the
  effects; whether the paginator yielded a page, and the
  stop flag the backup reads at it; and whether the stored entry of an object's key
  classifies the listed object as unchanged.
\<close>

definition stop_from :: "nat \<Rightarrow> nat \<Rightarrow> bool" where
  "stop_from n i \<longleftrightarrow> n \<le> i"

fun is_download :: "effect \<Rightarrow> bool" where
  "is_download (Download key local_path) = True"
| "is_download other = False"

fun page_fetched :: "page \<Rightarrow> bool" where
  "page_fetched (ListingError e) = False"
| "page_fetched (Page stop contents) = True"

fun page_stop :: "page \<Rightarrow> bool" where
  "page_stop (ListingError e) = False"
| "page_stop (Page stop contents) = stop"

definition up_to_date :: "(string \<times> stored_info) list \<Rightarrow> s3_object \<Rightarrow> bool" where
  "up_to_date m obj \<longleftrightarrow>
     classify_spec (map_of m (obj_key obj)) (obj_last_modified obj) (etag_of obj) = Unchanged"

text \<open>
  An object that the loop reaches without a stop request, whose directory can be made
  and whose first download attempt writes a file of the reported size.
\<close>

definition verified_at_once :: "s3_object \<times> object_env \<Rightarrow> bool" where
  "verified_at_once oe \<longleftrightarrow>
     \<not> stop_requested (snd oe) \<and> makedirs_error (snd oe) = None
     \<and> size_verified (fst oe) (snd oe) 0"

section \<open>Properties\<close>

subsection \<open>Auxiliary facts\<close>

lemma upt_max_retries: "[0..<max_retries] = [0, 1, 2]"
  by (simp add: max_retries_def upt_rec numeral_eq_Suc)

lemma map_of_dict_set: "map_of (dict_set k v d) = (map_of d)(k \<mapsto> v)"
  by (induction d) (auto simp: fun_eq_iff)

lemma entries_Nil [simp]: "entries [] = []"
  by (simp add: entries_def)

lemma entries_Cons [simp]: "entries (pg # ps) = page_entries pg @ entries ps"
  by (simp add: entries_def)

subsection \<open>What a pass of the monitor leaves alone\<close>

lemma monitor_frame_refl: "monitor_frame K P st st"
  by (simp add: monitor_frame_def)

lemma monitor_frame_trans:
  "monitor_frame K P a b \<Longrightarrow> monitor_frame K P b c \<Longrightarrow> monitor_frame K P a c"
  by (simp add: monitor_frame_def)

lemma monitor_frame_mono:
  "monitor_frame K P a b \<Longrightarrow> K \<subseteq> K' \<Longrightarrow> P \<subseteq> P' \<Longrightarrow> monitor_frame K' P' a b"
  by (auto simp: monitor_frame_def)

lemma monitor_frame_effects:
  "monitor_frame K P a b \<Longrightarrow> monitor_frame K P a (b\<lparr>effects := xs\<rparr>)"
  by (simp add: monitor_frame_def)

lemma monitor_attempt_frame:
  "monitor_frame {obj_key obj} {lp} st (snd (monitor_attempt obj lp r env a st))"
  by (simp add: monitor_attempt_def monitor_frame_def Let_def map_of_dict_set
      split: download_result.splits option.splits)

lemma monitor_attempts_frame:
  "monitor_frame {obj_key obj} {lp} st (snd (monitor_attempts obj lp r env as st))"
proof (induction as arbitrary: st)
  case Nil
  show ?case by (simp add: monitor_frame_refl)
next
  case (Cons a as)
  obtain res st' where att: "monitor_attempt obj lp r env a st = (res, st')"
    by (cases "monitor_attempt obj lp r env a st")
  have k: "monitor_frame {obj_key obj} {lp} st st'"
    using monitor_attempt_frame [of obj lp st r env a] att by simp
  show ?case
  proof (cases res)
    case None
    with att k show ?thesis by simp
  next
    case (Some e)
    have "monitor_frame {obj_key obj} {lp} st (st'\<lparr>effects := effects st' @ [Sleep (2 ^ a)]\<rparr>)"
      using k by (rule monitor_frame_effects)
    then have "monitor_frame {obj_key obj} {lp} st (snd (monitor_attempts obj lp r env as
                  (st'\<lparr>effects := effects st' @ [Sleep (2 ^ a)]\<rparr>)))"
      using Cons.IH monitor_frame_trans by blast
    with att Some k show ?thesis by simp
  qed
qed

lemma monitor_download_frameD:
  "monitor_download obj lp r env st = (res, st') \<Longrightarrow> monitor_frame {obj_key obj} {lp} st st'"
  using monitor_attempts_frame [of obj lp st r env "[0..<max_retries]"]
  by (auto simp: monitor_download_def monitor_frame_refl split: option.splits)

lemma monitor_object_frame:
  "monitor_frame {obj_key obj} {local_path_of prefix folder obj} st
     (monitor_object verbose prefix folder obj env st)"
  unfolding monitor_object_def Let_def local_path_of_def
  by (auto split: option.splits prod.splits dest!: monitor_download_frameD
      simp: monitor_frame_def)

lemma monitor_objects_frame:
  "monitor_frame (obj_key ` fst ` set objs) (local_path_of prefix folder ` fst ` set objs) st
     (monitor_objects verbose prefix folder objs st)"
proof (induction objs arbitrary: st)
  case Nil
  show ?case by (simp add: monitor_frame_refl)
next
  case (Cons oe objs)
  obtain obj env where oe: "oe = (obj, env)" by (cases oe)
  let ?K = "obj_key ` fst ` set (oe # objs)"
  let ?P = "local_path_of prefix folder ` fst ` set (oe # objs)"
  let ?st' = "st\<lparr>effects := effects st @ [StopCheck]\<rparr>"
  have a: "monitor_frame ?K ?P st ?st'"
    by (simp add: monitor_frame_def)
  have b: "monitor_frame ?K ?P ?st' (monitor_object verbose prefix folder obj env ?st')"
    by (rule monitor_frame_mono [OF monitor_object_frame]) (auto simp: oe)
  have c: "monitor_frame ?K ?P (monitor_object verbose prefix folder obj env ?st')
             (monitor_objects verbose prefix folder objs
                (monitor_object verbose prefix folder obj env ?st'))"
    by (rule monitor_frame_mono [OF Cons.IH]) auto
  show ?case
    using a monitor_frame_trans [OF a monitor_frame_trans [OF b c]]
    by (simp add: oe Let_def)
qed

lemma monitor_pages_frame:
  "monitor_frame (obj_key ` fst ` set (entries ps))
     (local_path_of prefix folder ` fst ` set (entries ps)) st
     (snd (monitor_pages verbose prefix folder ps st))"
proof (induction ps arbitrary: st)
  case Nil
  show ?case by (simp add: monitor_frame_refl)
next
  case (Cons pg ps)
  let ?K = "obj_key ` fst ` set (entries (pg # ps))"
  let ?P = "local_path_of prefix folder ` fst ` set (entries (pg # ps))"
  show ?case
  proof (cases pg)
    case (ListingError e)
    then show ?thesis by (simp add: monitor_frame_refl)
  next
    case (Page stop contents)
    show ?thesis
    proof (cases contents)
      case None
      have "monitor_frame ?K ?P st (snd (monitor_pages verbose prefix folder ps st))"
        by (rule monitor_frame_mono [OF Cons.IH]) auto
      with Page None show ?thesis by simp
    next
      case (Some objs)
      let ?st1 = "monitor_objects verbose prefix folder objs st"
      have a: "monitor_frame ?K ?P st ?st1"
        by (rule monitor_frame_mono [OF monitor_objects_frame]) (auto simp: Page Some)
      have b: "monitor_frame ?K ?P ?st1 (snd (monitor_pages verbose prefix folder ps ?st1))"
        by (rule monitor_frame_mono [OF Cons.IH]) auto
      show ?thesis using monitor_frame_trans [OF a b] Page Some by simp
    qed
  qed
qed



subsection \<open>What a pass of the backup leaves alone\<close>

lemma backup_frame_refl: "backup_frame K P st st"
  by (simp add: backup_frame_def)

lemma backup_frame_trans:
  "backup_frame K P a b \<Longrightarrow> backup_frame K P b c \<Longrightarrow> backup_frame K P a c"
  by (auto simp: backup_frame_def)

lemma backup_frame_mono:
  "backup_frame K P a b \<Longrightarrow> K \<subseteq> K' \<Longrightarrow> P \<subseteq> P' \<Longrightarrow> backup_frame K' P' a b"
  by (auto simp: backup_frame_def)

lemma backup_version_frameD:
  "backup_version folder rel lp env st = (res, st')
   \<Longrightarrow> backup_frame K {lp, versions_path folder rel (stamp env)} st st'"
  by (auto simp: backup_version_def backup_frame_def write_log_def Let_def
      split: if_splits option.splits)

lemma backup_attempt_frame:
  "backup_frame {obj_key obj} {lp} st (snd (backup_attempt obj lp r env a st))"
  by (simp add: backup_attempt_def backup_frame_def write_log_def Let_def map_of_dict_set
      split: download_result.splits option.splits)

lemma backup_attempts_frame:
  "backup_frame {obj_key obj} {lp} st (snd (snd (backup_attempts obj lp r env as st)))"
proof (induction as arbitrary: st)
  case Nil
  show ?case by (simp add: backup_frame_refl)
next
  case (Cons a as)
  obtain res st' where att: "backup_attempt obj lp r env a st = (res, st')"
    by (cases "backup_attempt obj lp r env a st")
  have k: "backup_frame {obj_key obj} {lp} st st'"
    using backup_attempt_frame [of obj lp st r env a] att by simp
  show ?case
  proof (cases res)
    case None
    with att k show ?thesis by simp
  next
    case (Some e)
    let ?st1 = "write_log (LogRetry (a + 1) (obj_key obj))
                  (st'\<lparr>effects := effects st' @ [Sleep (2 ^ a)]\<rparr>)"
    have "backup_frame {obj_key obj} {lp} st ?st1"
      using k by (simp add: backup_frame_def write_log_def)
    then have "backup_frame {obj_key obj} {lp} st
                 (snd (snd (backup_attempts obj lp r env as ?st1)))"
      using Cons.IH backup_frame_trans by blast
    with att Some k show ?thesis by simp
  qed
qed

lemma backup_download_frameD:
  "backup_download obj lp r env st = (res, st') \<Longrightarrow> backup_frame {obj_key obj} {lp} st st'"
  using backup_attempts_frame [of obj lp st r env "[0..<max_retries]"]
  by (auto simp: backup_download_def backup_frame_def write_log_def
      split: option.splits prod.splits if_splits)

lemma backup_object_frame:
  "backup_frame {obj_key obj}
     {local_path_of prefix folder obj, archive_path_of prefix folder (obj, env)} st
     (snd (backup_object verbose prefix folder obj env st))"
proof (cases "backup_detect (backup_history st) (obj_key obj) (obj_last_modified obj) (etag_of obj)")
  case (Pair needs_backup reason)
  let ?lp = "local_path_of prefix folder obj"
  let ?P = "{?lp, archive_path_of prefix folder (obj, env)}"
  show ?thesis
  proof (cases needs_backup)
    case False
    with Pair show ?thesis
      by (simp add: backup_object_def backup_frame_def write_log_def Let_def)
  next
    case True
    obtain r1 st1 where v: "backup_version folder (rel_path prefix (obj_key obj)) ?lp env st = (r1, st1)"
      by (cases "backup_version folder (rel_path prefix (obj_key obj)) ?lp env st")
    have a: "backup_frame {obj_key obj} ?P st st1"
      using backup_version_frameD [OF v] by (simp add: archive_path_of_def)
    show ?thesis
    proof (cases r1)
      case (Some e)
      with Pair True v a show ?thesis
        by (simp add: backup_object_def Let_def local_path_of_def)
    next
      case None
      obtain r2 st2 where d: "backup_download obj ?lp reason env st1 = (r2, st2)"
        by (cases "backup_download obj ?lp reason env st1")
      have b: "backup_frame {obj_key obj} ?P st1 st2"
        by (rule backup_frame_mono [OF backup_download_frameD [OF d]]) auto
      have c: "backup_frame {obj_key obj} ?P st st2"
        using a b by (rule backup_frame_trans)
      then have c': "backup_frame {obj_key obj} ?P st
          ((write_log (LogBackupFailed (obj_key obj) e) st2)
             \<lparr>b_consecutive_errors := b_consecutive_errors st2 + 1\<rparr>)" for e
        by (simp add: backup_frame_def write_log_def)
      show ?thesis using Pair True v None d c c'
        by (cases r2) (simp_all add: backup_object_def Let_def local_path_of_def)
    qed
  qed
qed

lemma backup_objects_frame:
  "backup_frame (obj_key ` fst ` set objs)
     (local_path_of prefix folder ` fst ` set objs \<union> archive_path_of prefix folder ` set objs) st
     (snd (backup_objects verbose prefix folder objs st))"
proof (induction objs arbitrary: st)
  case Nil
  show ?case by (simp add: backup_frame_refl)
next
  case (Cons oe objs)
  obtain obj env where oe: "oe = (obj, env)" by (cases oe)
  let ?K = "obj_key ` fst ` set (oe # objs)"
  let ?P = "local_path_of prefix folder ` fst ` set (oe # objs)
            \<union> archive_path_of prefix folder ` set (oe # objs)"
  let ?st' = "st\<lparr>effects := effects st @ [StopCheck]\<rparr>"
  obtain r1 st1 where o: "backup_object verbose prefix folder obj env ?st' = (r1, st1)"
    by (cases "backup_object verbose prefix folder obj env ?st'")
  have a: "backup_frame ?K ?P st ?st'"
    by (simp add: backup_frame_def)
  have "backup_frame ?K ?P ?st' (snd (backup_object verbose prefix folder obj env ?st'))"
    by (rule backup_frame_mono [OF backup_object_frame]) (auto simp: oe)
  then have b: "backup_frame ?K ?P ?st' st1"
    using o by simp
  have c: "backup_frame ?K ?P st1 (snd (backup_objects verbose prefix folder objs st1))"
    by (rule backup_frame_mono [OF Cons.IH]) auto
  show ?case
    using a backup_frame_trans [OF a b] backup_frame_trans [OF a backup_frame_trans [OF b c]] o
    by (cases r1) (simp_all add: oe Let_def)
qed

lemma backup_pages_frame:
  "backup_frame (obj_key ` fst ` set (entries ps))
     (local_path_of prefix folder ` fst ` set (entries ps)
      \<union> archive_path_of prefix folder ` set (entries ps)) st
     (snd (backup_pages verbose prefix folder ps st))"
proof (induction ps arbitrary: st)
  case Nil
  show ?case by (simp add: backup_frame_refl)
next
  case (Cons pg ps)
  let ?K = "obj_key ` fst ` set (entries (pg # ps))"
  let ?P = "local_path_of prefix folder ` fst ` set (entries (pg # ps))
            \<union> archive_path_of prefix folder ` set (entries (pg # ps))"
  show ?case
  proof (cases pg)
    case (ListingError e)
    then show ?thesis by (simp add: backup_frame_refl)
  next
    case (Page stop contents)
    let ?st' = "st\<lparr>effects := effects st @ [StopCheck]\<rparr>"
    have a: "backup_frame ?K ?P st ?st'"
      by (simp add: backup_frame_def)
    show ?thesis
    proof (cases stop)
      case True
      with Page show ?thesis by (simp add: backup_frame_def write_log_def Let_def)
    next
      case False
      show ?thesis
      proof (cases contents)
        case None
        have "backup_frame ?K ?P ?st' (snd (backup_pages verbose prefix folder ps ?st'))"
          by (rule backup_frame_mono [OF Cons.IH]) auto
        with Page None False backup_frame_trans [OF a] show ?thesis by (simp add: Let_def)
      next
        case (Some objs)
        obtain r1 st1 where o: "backup_objects verbose prefix folder objs ?st' = (r1, st1)"
          by (cases "backup_objects verbose prefix folder objs ?st'")
        have "backup_frame ?K ?P ?st' (snd (backup_objects verbose prefix folder objs ?st'))"
          by (rule backup_frame_mono [OF backup_objects_frame]) (auto simp: Page Some)
        then have b: "backup_frame ?K ?P ?st' st1"
          using o by simp
        have c: "backup_frame ?K ?P st1 (snd (backup_pages verbose prefix folder ps st1))"
          by (rule backup_frame_mono [OF Cons.IH]) auto
        show ?thesis
          using backup_frame_trans [OF a b] backup_frame_trans [OF a backup_frame_trans [OF b c]]
            Page Some False o
          by (cases r1) (simp_all add: Let_def)
      qed
    qed
  qed
qed

subsection \<open>C1: change detection\<close>

text \<open>
  C1. In both threads the outcome of change detection is the specified classification of
  the stored entry of the key against the listed record: new when there is no stored
  entry, modified when a dictionary entry differs in \<^verbatim>\<open>last_modified\<close> or in \<^verbatim>\<open>etag\<close> or
  a legacy entry differs from the listed timestamp, and unchanged otherwise. The monitor
  downloads exactly the keys not classified unchanged and names the class in its reason;
  the backup does the same.
\<close>

theorem change_detection_classifies:
  "monitor_detect m key lm etag =
     (case classify_spec (map_of m key) lm etag of
        New \<Rightarrow> Some ''new file''
      | Modified \<Rightarrow>
          Some (case map_of m key of
                  Some (InfoLegacy t) \<Rightarrow> ''file modified (legacy check)''
                | _ \<Rightarrow> ''file modified'')
      | Unchanged \<Rightarrow> None)
   \<and> backup_detect m key lm etag =
     (case classify_spec (map_of m key) lm etag of
        New \<Rightarrow> (True, ''new file'')
      | Modified \<Rightarrow>
          (True, case map_of m key of
                   Some (InfoLegacy t) \<Rightarrow> ''file modified (legacy)''
                 | _ \<Rightarrow> ''file modified'')
      | Unchanged \<Rightarrow> (False, ''new file''))
   \<and> (classify_spec (map_of m key) lm etag = New \<longleftrightarrow> map_of m key = None)
   \<and> (classify_spec (map_of m key) lm etag = Modified \<longleftrightarrow>
        (\<exists>d. map_of m key = Some (InfoDict d)
              \<and> (dict_get d ''last_modified'' \<noteq> lm \<or> dict_get d ''etag'' \<noteq> PStr etag))
        \<or> (\<exists>t. map_of m key = Some (InfoLegacy t) \<and> t \<noteq> lm))"
  by (auto simp: monitor_detect_def backup_detect_def classify_spec_def
      split: option.splits stored_info.splits)

theorem change_detection_classifies_witness:
  "monitor_detect [(''a.txt'', InfoDict [(''last_modified'', PDatetime 5), (''etag'', PStr ''e1'')])]
      ''a.txt'' (PDatetime 5) ''e2'' = Some ''file modified''
   \<and> backup_detect [(''a.txt'', InfoDict [(''last_modified'', PDatetime 5), (''etag'', PStr ''e1'')])]
      ''a.txt'' (PDatetime 5) ''e2'' = (True, ''file modified'')
   \<and> classify_spec (Some (InfoDict [(''last_modified'', PDatetime 5), (''etag'', PStr ''e1'')]))
        (PDatetime 5) ''e2'' = Modified"
  using change_detection_classifies
    [of "[(''a.txt'', InfoDict [(''last_modified'', PDatetime 5), (''etag'', PStr ''e1'')])]"
        "''a.txt''" "PDatetime 5" "''e2''"]
  by (simp add: classify_spec_def dict_get_def)

subsection \<open>The fields a whole cycle takes from its pass\<close>

lemma monitor_pass_frame:
  "monitor_frame (obj_key ` fst ` set (entries (pages env)))
     (local_path_of p f ` fst ` set (entries (pages env)))
     (st\<lparr>m_consecutive_errors := 0, files_checked := 0, files_downloaded := 0\<rparr>)
     (snd (monitor_pass v p f env st))"
  unfolding monitor_pass_def by (rule monitor_pages_frame)


lemma monitor_cycle_fields:
  "last_seen (monitor_cycle v b p f env st) = last_seen (snd (monitor_pass v p f env st))"
  "files (monitor_cycle v b p f env st) = files (snd (monitor_pass v p f env st))"
  by (simp_all add: monitor_cycle_def save_backup_metadata_def Let_def
      split: prod.splits option.splits sum.splits)

lemma backup_cycle_fields:
  "backup_history (backup_cycle v b p f env st) = backup_history (snd (backup_pass v p f env st))"
  "files (backup_cycle v b p f env st) = files (snd (backup_pass v p f env st))"
  by (simp_all add: backup_cycle_def save_backup_metadata_def write_log_def Let_def
      split: prod.splits option.splits sum.splits)

subsection \<open>C10: nothing stored is removed\<close>




subsection \<open>C3: escalation of the interval\<close>

lemma monitor_cycle_listing_error:
  "pages env = ListingError e # ps \<Longrightarrow>
   monitor_cycle v b p f env st =
     st\<lparr>m_consecutive_errors := 1, files_checked := 0, files_downloaded := 0,
        monitor_log := monitor_log st @ [LogCycleError 1 e],
        stats_errors := stats_errors st + 1\<rparr>"
  by (simp add: monitor_cycle_def monitor_pass_def monitor_max_errors_def Let_def)

lemma backup_cycle_listing_error:
  "pages env = ListingError e # ps \<Longrightarrow>
   backup_cycle v b p f env st =
     st\<lparr>backup_count := backup_count st + 1, files_backed_up := 0, files_skipped := 0,
        total_size := 0,
        backup_log := backup_log st @ [LogBackupStarted (backup_count st + 1), LogCycleError 1 e],
        b_consecutive_errors := 1\<rparr>"
  by (simp add: backup_cycle_def backup_pass_def backup_max_errors_def write_log_def Let_def)

lemma monitor_cycle_interval: "m_interval (monitor_cycle v b p f env st) = m_interval st"
proof -
  have k: "m_interval (snd (monitor_pass v p f env st)) = m_interval st"
      "m_consecutive_errors (snd (monitor_pass v p f env st)) = 0"
    using monitor_pass_frame [of env p f st v] by (simp_all add: monitor_frame_def)
  show ?thesis
    using k
    by (cases "monitor_pass v p f env st")
       (simp add: monitor_cycle_def monitor_max_errors_def save_backup_metadata_def Let_def
        split: option.splits sum.splits)
qed

lemma monitor_loop_interval: "m_interval (monitor_loop v b p f run st) = m_interval st"
proof (induction run arbitrary: st)
  case Nil
  show ?case by simp
next
  case (Cons x run)
  obtain stop env where x: "x = (stop, env)" by (cases x)
  show ?case
    by (simp add: x Let_def Cons.IH monitor_cycle_interval)
qed

text \<open>
  C3. The claim says that consecutive cycle-level failures are counted and that the
  interval doubles when the count reaches the threshold. In the code both threads set the
  counter to zero at the start of every cycle, so it is one after any failed cycle: five
  cycles of the monitor in which the listing fails leave its interval of 60 seconds as it
  was (the claim gives 120), and three such cycles of the backup leave its interval of 10
  minutes as it was (the claim gives 20).
\<close>

theorem escalation_never_reached:
  "m_interval (s3_monitor_thread ''b'' [] ''/m'' 60 [] False
      (replicate 5 (False, cycle_of [ListingError ''EndpointConnectionError''])) empty_world) = 60
   \<and> m_consecutive_errors (s3_monitor_thread ''b'' [] ''/m'' 60 [] False
      (replicate 5 (False, cycle_of [ListingError ''EndpointConnectionError''])) empty_world) = 1
   \<and> b_interval (s3_backup_thread ''b'' [] ''/m'' 10 False
      (replicate 3 (False, cycle_of [ListingError ''EndpointConnectionError''])) empty_world) = 10
   \<and> b_consecutive_errors (s3_backup_thread ''b'' [] ''/m'' 10 False
      (replicate 3 (False, cycle_of [ListingError ''EndpointConnectionError''])) empty_world) = 1"
  by (simp add: s3_monitor_thread_def s3_backup_thread_def eval_nat_numeral
      monitor_cycle_listing_error backup_cycle_listing_error
      cycle_of_def monitor_start_def backup_start_def empty_world_def load_backup_metadata_def
      Let_def)

subsection \<open>C8: the wait between two cycles\<close>

lemma backup_wait_turns_checked:
  "backup_wait_turns stop turns =
     concat (map (\<lambda>i. [StopCheck, Sleep 1]) (takeWhile (\<lambda>i. \<not> stop i) turns))
     @ (if \<exists>i \<in> set turns. stop i then [StopCheck] else [])"
  by (induction turns) auto

text \<open>
  C8. The claim says that in every mode the wait checks the stop event at least once per
  time unit. The monitor waits with one call of \<^verbatim>\<open>time.sleep(interval)\<close>: with an
  interval of 60 seconds, a stop requested during the wait is seen only by the check that
  follows the whole sleep. The backup does what the claim says: with an interval of one
  minute and the stop event set after two seconds, its wait ends after two sleeps of one
  second.
\<close>

theorem monitor_sleep_unchecked:
  "effects (s3_monitor_thread ''b'' [] ''/m'' 60 [] False
      [(False, cycle_of []), (True, cycle_of [])] empty_world) = [StopCheck, Sleep 60, StopCheck]
   \<and> backup_wait (stop_from 2) 1 = [StopCheck, Sleep 1, StopCheck, Sleep 1, StopCheck]"
  by (simp add: stop_from_def s3_monitor_thread_def monitor_cycle_def monitor_pass_def
      save_backup_metadata_def json_dump_def
      monitor_wait_def cycle_of_def monitor_start_def empty_world_def load_backup_metadata_def
      Let_def backup_wait_def backup_wait_turns_checked upt_rec)

subsection \<open>Evaluating the example inputs\<close>

lemma upt_0_3: "[0..<3] = [0, 1, 2::nat]"
  by (simp add: upt_rec numeral_eq_Suc)

lemmas eval_defs =
  monitor_pass_def monitor_object_def monitor_download_def
  monitor_attempt_def monitor_detect_def upt_0_3 max_retries_def cycle_of_def a_txt_def
  env_ok_def env_raising_def env_short_def
  abc_file_def ab_file_def a_txt_entry_def monitor_start_def empty_world_def load_backup_metadata_def
  validate_file_integrity_def calculate_file_hash_def size_of_def etag_of_def
  strip_quotes_def metadata_path_def path_join_def rel_path_def Let_def
  backup_pass_def backup_object_def backup_download_def backup_attempt_def backup_detect_def
  backup_version_def backup_start_def write_log_def versions_path_def basename_def

subsection \<open>C5: writing and reading the metadata document\<close>

lemma save_load_encodable:
  "list_all (\<lambda>kv. info_encodable (snd kv)) (backup_metadata w) \<Longrightarrow>
   fst (load_backup_metadata f (save_backup_metadata now None b p f w)) =
     Some \<lparr>doc_bucket = b, doc_prefix = p, doc_last_backup = now, doc_files = backup_metadata w\<rparr>"
  by (simp add: save_backup_metadata_def load_backup_metadata_def json_dump_def Let_def)

lemma monitor_cycle_a_txt:
  "last_seen (monitor_cycle False ''b'' [] ''/m'' (cycle_of [Page False (Some [(a_txt, env_ok)])])
      (monitor_start ''/m'' 60 [] empty_world)) = [(''a.txt'', a_txt_entry)]"
  by (simp add: monitor_cycle_fields monitor_pass_def monitor_object_def monitor_download_def
      monitor_attempt_def monitor_detect_def upt_max_retries cycle_of_def a_txt_def env_ok_def
      abc_file_def a_txt_entry_def monitor_start_def empty_world_def load_backup_metadata_def
      validate_file_integrity_def calculate_file_hash_def size_of_def etag_of_def
      strip_quotes_def metadata_path_def path_join_def rel_path_def Let_def)

text \<open>
  C5. The claim says that a saved document is read back with the same mapping. The
  entries the threads store hold the listed \<^verbatim>\<open>LastModified\<close>, a \<^verbatim>\<open>datetime\<close>, which
  \<^verbatim>\<open>json.dump\<close> cannot encode: saving the mapping the monitor holds after one verified
  download of \<^verbatim>\<open>a.txt\<close> leaves an incomplete file and logs the error, and loading it
  gives the empty dictionary and logs the parse error. (For a mapping without such
  values the round trip holds, \<open>save_load_encodable\<close>.)
\<close>

theorem datetime_entry_not_saved:
  "last_seen (monitor_cycle False ''b'' [] ''/m'' (cycle_of [Page False (Some [(a_txt, env_ok)])])
      (monitor_start ''/m'' 60 [] empty_world)) = [(''a.txt'', a_txt_entry)]
   \<and> fst (load_backup_metadata ''/m''
        (save_backup_metadata ''2024-01-01T00:00:01'' None ''b'' [] ''/m''
           (empty_world\<lparr>backup_metadata := [(''a.txt'', a_txt_entry)]\<rparr>))) = None
   \<and> meta_files (save_backup_metadata ''2024-01-01T00:00:01'' None ''b'' [] ''/m''
           (empty_world\<lparr>backup_metadata := [(''a.txt'', a_txt_entry)]\<rparr>))
        (metadata_path ''/m'') = Some Incomplete
   \<and> main_log (snd (load_backup_metadata ''/m''
        (save_backup_metadata ''2024-01-01T00:00:01'' None ''b'' [] ''/m''
           (empty_world\<lparr>backup_metadata := [(''a.txt'', a_txt_entry)]\<rparr>)))) =
       [LogSaveError ''Object of type datetime is not JSON serializable'',
        LogLoadError ''JSONDecodeError'']"
  using monitor_cycle_a_txt
  by (simp add: save_backup_metadata_def load_backup_metadata_def
      json_dump_def a_txt_entry_def empty_world_def Let_def)

subsection \<open>C4: saving at the end of a cycle\<close>

lemma monitor_pages_raises:
  "fst (monitor_pages v p f ps st) = None \<longleftrightarrow> (\<forall>e. ListingError e \<notin> set ps)"
proof (induction ps arbitrary: st)
  case Nil
  show ?case by simp
next
  case (Cons pg ps)
  show ?case by (cases pg) (auto simp: Cons.IH)
qed





subsection \<open>One attempt and the attempt loop\<close>

lemma schedule_simps:
  "schedule k lp (Suc 0) = [Download k lp]"
  "schedule k lp 2 = [Download k lp, Sleep 1, Download k lp]"
  "schedule k lp 3 = [Download k lp, Sleep 1, Download k lp, Sleep 2, Download k lp]"
  by (simp_all add: schedule_def upt_rec numeral_eq_Suc)

lemma all_below_3: "(\<forall>a<3. P a) \<longleftrightarrow> P 0 \<and> P 1 \<and> P (2::nat)"
  by (auto simp: numeral_eq_Suc less_Suc_eq)

lemma monitor_attempt_result:
  "monitor_attempt obj lp r env a st = (res, st') \<Longrightarrow>
     attempt_error obj env a = res
     \<and> effects st' = effects st @ [Download (obj_key obj) lp]
     \<and> stats_errors st' = stats_errors st
     \<and> (\<not> size_verified obj env a \<longrightarrow> last_seen st' = last_seen st)
     \<and> (\<forall>f. download env a = Writes f \<and> file_size f = size_of obj \<longrightarrow>
           last_seen st' = dict_set (obj_key obj) (monitor_entry obj f (clock env a)) (last_seen st)
           \<and> files st' lp = Some f)
     \<and> monitor_log st' = monitor_log st @
          (if res = None then [LogDownloaded (obj_key obj) lp r] else [])"
  by (auto simp: monitor_attempt_def attempt_error_def size_verified_def monitor_entry_def
      validate_file_integrity_def calculate_file_hash_def Let_def
      split: download_result.splits option.splits if_splits)

lemma monitor_attempts_unfold:
  "monitor_attempts obj lp r env [0, 1, 2] st =
     (case monitor_attempt obj lp r env 0 st of
        (None, s0) \<Rightarrow> (None, s0)
      | (Some e0, s0) \<Rightarrow>
          (case monitor_attempt obj lp r env 1 (s0\<lparr>effects := effects s0 @ [Sleep 1]\<rparr>) of
             (None, s1) \<Rightarrow> (None, s1)
           | (Some e1, s1) \<Rightarrow>
               (case monitor_attempt obj lp r env 2 (s1\<lparr>effects := effects s1 @ [Sleep 2]\<rparr>) of
                  (None, s2) \<Rightarrow> (None, s2)
                | (Some e2, s2) \<Rightarrow> (Some e2, s2))))"
  by (simp add: max_retries_def split: prod.splits option.splits)

lemma monitor_attempts_result:
  assumes run: "monitor_attempts obj lp r env [0, 1, 2] st = (res, st')"
  shows "effects st' = effects st @ schedule (obj_key obj) lp (attempts_made obj env)
     \<and> stats_errors st' = stats_errors st
     \<and> (if attempts_made obj env = 3 then attempt_error obj env 2 else None) = res
     \<and> ((\<forall>a < 3. \<not> size_verified obj env a) \<longrightarrow> last_seen st' = last_seen st)
     \<and> monitor_log st' = monitor_log st @
          (if res = None then [LogDownloaded (obj_key obj) lp r] else [])"
proof -
  obtain r0 s0 where a0: "monitor_attempt obj lp r env 0 st = (r0, s0)"
    by (cases "monitor_attempt obj lp r env 0 st")
  note f0 = monitor_attempt_result [OF a0]
  show ?thesis
  proof (cases r0)
    case None
    have rs: "res = None" "st' = s0"
      using run [unfolded monitor_attempts_unfold] a0 None by simp_all
    have n: "attempts_made obj env = 1"
      using f0 None by (simp add: attempts_made_def)
    show ?thesis
      using f0 None by (simp add: rs n schedule_simps)
  next
    case s: (Some e0)
    let ?s0 = "s0\<lparr>effects := effects s0 @ [Sleep 1]\<rparr>"
    obtain r1 s1 where a1: "monitor_attempt obj lp r env 1 ?s0 = (r1, s1)"
      by (cases "monitor_attempt obj lp r env 1 ?s0")
    note f1 = monitor_attempt_result [OF a1]
    show ?thesis
    proof (cases r1)
      case None
      have rs: "res = None" "st' = s1"
        using run [unfolded monitor_attempts_unfold] a0 a1 s None by simp_all
      have n: "attempts_made obj env = 2"
        using f0 f1 s None by (simp add: attempts_made_def)
      show ?thesis
        using f0 f1 s None by (simp add: rs n schedule_simps)
    next
      case s': (Some e1)
      let ?s1 = "s1\<lparr>effects := effects s1 @ [Sleep 2]\<rparr>"
      obtain r2 s2 where a2: "monitor_attempt obj lp r env 2 ?s1 = (r2, s2)"
        by (cases "monitor_attempt obj lp r env 2 ?s1")
      note f2 = monitor_attempt_result [OF a2]
      have rs: "res = r2" "st' = s2"
        using run [unfolded monitor_attempts_unfold] a0 a1 a2 s s'
        by (simp_all split: option.splits)
      have n: "attempts_made obj env = 3"
        using f0 f1 s s' by (simp add: attempts_made_def)
      show ?thesis
        using f0 f1 f2 s s' by (simp add: rs n schedule_simps all_below_3)
    qed
  qed
qed

lemma monitor_object_changed:
  assumes d: "monitor_detect (last_seen st) (obj_key obj) (obj_last_modified obj) (etag_of obj) = Some r"
    and mk: "makedirs_error env = None"
  shows "effects (monitor_object v p fo obj env st) =
           effects st @ schedule (obj_key obj) (local_path_of p fo obj) (attempts_made obj env)
     \<and> ((\<forall>a < 3. \<not> size_verified obj env a) \<longrightarrow>
           last_seen (monitor_object v p fo obj env st) = last_seen st)
     \<and> (attempts_made obj env = 3 \<and> attempt_error obj env 2 = Some e \<longrightarrow>
           monitor_log (monitor_object v p fo obj env st) =
             monitor_log st @ (if v then [LogChecked (obj_key obj)] else [])
               @ [LogDownloadFailed (obj_key obj) e]
           \<and> stats_errors (monitor_object v p fo obj env st) = stats_errors st + 1)"
proof -
  let ?st2 = "if v then st\<lparr>files_checked := files_checked st + 1,
                   stats_checked := stats_checked st + 1,
                   monitor_log := monitor_log st @ [LogChecked (obj_key obj)]\<rparr>
              else st\<lparr>files_checked := files_checked st + 1,
                   stats_checked := stats_checked st + 1\<rparr>"
  obtain res st3 where run:
    "monitor_attempts obj (local_path_of p fo obj) r env [0, 1, 2] ?st2 = (res, st3)"
    by (cases "monitor_attempts obj (local_path_of p fo obj) r env [0, 1, 2] ?st2")
  note f = monitor_attempts_result [OF run]
  have obj: "monitor_object v p fo obj env st =
     (case res of None \<Rightarrow> st3
      | Some e \<Rightarrow> st3\<lparr>monitor_log := monitor_log st3 @ [LogDownloadFailed (obj_key obj) e],
                       stats_errors := stats_errors st3 + 1\<rparr>)"
    using d mk run
    by (simp add: monitor_object_def monitor_download_def upt_max_retries Let_def
          local_path_of_def split: if_splits)
  have base: "effects ?st2 = effects st" "stats_errors ?st2 = stats_errors st"
      "last_seen ?st2 = last_seen st"
      "monitor_log ?st2 = monitor_log st @ (if v then [LogChecked (obj_key obj)] else [])"
    by simp_all
  show ?thesis
    using f unfolding base obj by (cases res) auto
qed

lemma backup_attempt_result:
  "backup_attempt obj lp r env a st = (res, st') \<Longrightarrow>
     attempt_error obj env a = res
     \<and> effects st' = effects st @ [Download (obj_key obj) lp]
     \<and> b_consecutive_errors st' = b_consecutive_errors st
     \<and> backup_count st' = backup_count st
     \<and> (\<not> size_verified obj env a \<longrightarrow> backup_history st' = backup_history st)
     \<and> (\<forall>f. download env a = Writes f \<and> file_size f = size_of obj \<longrightarrow>
           backup_history st' =
             dict_set (obj_key obj) (backup_entry obj f (clock env a) (backup_count st))
               (backup_history st)
           \<and> files st' lp = Some f)
     \<and> backup_log st' = backup_log st @
          (if res = None then [LogBackedUp (obj_key obj) lp r] else [])"
  by (auto simp: backup_attempt_def attempt_error_def size_verified_def backup_entry_def
      validate_file_integrity_def calculate_file_hash_def write_log_def Let_def
      split: download_result.splits option.splits if_splits)

lemma backup_attempts_unfold:
  "backup_attempts obj lp r env [0, 1, 2] st =
     (case backup_attempt obj lp r env 0 st of
        (None, s0) \<Rightarrow> (None, True, s0)
      | (Some e0, s0) \<Rightarrow>
          (case backup_attempt obj lp r env 1
                  (write_log (LogRetry 1 (obj_key obj)) (s0\<lparr>effects := effects s0 @ [Sleep 1]\<rparr>)) of
             (None, s1) \<Rightarrow> (None, True, s1)
           | (Some e1, s1) \<Rightarrow>
               (case backup_attempt obj lp r env 2
                       (write_log (LogRetry 2 (obj_key obj))
                          (s1\<lparr>effects := effects s1 @ [Sleep 2]\<rparr>)) of
                  (None, s2) \<Rightarrow> (None, True, s2)
                | (Some e2, s2) \<Rightarrow> (Some e2, False, s2))))"
  by (simp add: max_retries_def numeral_2_eq_2 [symmetric] split: prod.splits option.splits)

lemma backup_attempts_result:
  assumes run: "backup_attempts obj lp r env [0, 1, 2] st = (res, ok, st')"
  shows "effects st' = effects st @ schedule (obj_key obj) lp (attempts_made obj env)
     \<and> b_consecutive_errors st' = b_consecutive_errors st
     \<and> backup_count st' = backup_count st
     \<and> (if attempts_made obj env = 3 then attempt_error obj env 2 else None) = res
     \<and> ok = (res = None)
     \<and> ((\<forall>a < 3. \<not> size_verified obj env a) \<longrightarrow> backup_history st' = backup_history st)
     \<and> backup_log st' = backup_log st
          @ map (\<lambda>i. LogRetry i (obj_key obj)) [1..<attempts_made obj env]
          @ (if res = None then [LogBackedUp (obj_key obj) lp r] else [])"
proof -
  obtain r0 s0 where a0: "backup_attempt obj lp r env 0 st = (r0, s0)"
    by (cases "backup_attempt obj lp r env 0 st")
  note f0 = backup_attempt_result [OF a0]
  show ?thesis
  proof (cases r0)
    case None
    have rs: "res = None" "st' = s0" "ok"
      using run [unfolded backup_attempts_unfold] a0 None by simp_all
    have n: "attempts_made obj env = 1"
      using f0 None by (simp add: attempts_made_def)
    show ?thesis
      using f0 None by (simp add: rs n schedule_simps)
  next
    case s: (Some e0)
    let ?s0 = "write_log (LogRetry 1 (obj_key obj)) (s0\<lparr>effects := effects s0 @ [Sleep 1]\<rparr>)"
    obtain r1 s1 where a1: "backup_attempt obj lp r env 1 ?s0 = (r1, s1)"
      by (cases "backup_attempt obj lp r env 1 ?s0")
    note f1 = backup_attempt_result [OF a1]
    show ?thesis
    proof (cases r1)
      case None
      have rs: "res = None" "st' = s1" "ok"
        using run [unfolded backup_attempts_unfold] a0 a1 s None by simp_all
      have n: "attempts_made obj env = 2"
        using f0 f1 s None by (simp add: attempts_made_def)
      have u: "[Suc 0..<2] = [Suc 0]"
        by (simp add: upt_rec numeral_eq_Suc)
      show ?thesis
        using f0 f1 s None by (simp add: rs n u schedule_simps write_log_def)
    next
      case s': (Some e1)
      let ?s1 = "write_log (LogRetry 2 (obj_key obj)) (s1\<lparr>effects := effects s1 @ [Sleep 2]\<rparr>)"
      obtain r2 s2 where a2: "backup_attempt obj lp r env 2 ?s1 = (r2, s2)"
        by (cases "backup_attempt obj lp r env 2 ?s1")
      note f2 = backup_attempt_result [OF a2]
      have rs: "res = r2" "st' = s2" "ok = (r2 = None)"
        using run [unfolded backup_attempts_unfold] a0 a1 a2 s s'
        by (auto split: option.splits)
      have n: "attempts_made obj env = 3"
        using f0 f1 s s' by (simp add: attempts_made_def)
      have u: "[Suc 0..<3] = [Suc 0, 2]"
        by (simp add: upt_rec numeral_eq_Suc)
      show ?thesis
        using f0 f1 f2 s s' by (simp add: rs n u schedule_simps all_below_3 write_log_def)
    qed
  qed
qed

lemma backup_version_result:
  assumes run: "backup_version fo (rel_path p (obj_key obj)) (local_path_of p fo obj) env st = (res, st1)"
  shows "(if files st (local_path_of p fo obj) \<noteq> None then versions_error env else None) = res
     \<and> effects st1 = effects st @ (if res = None then version_effects p fo obj env st else [])
     \<and> backup_log st1 = backup_log st @ (if res = None then version_log p fo obj env st else [])
     \<and> backup_history st1 = backup_history st
     \<and> b_consecutive_errors st1 = b_consecutive_errors st
     \<and> backup_count st1 = backup_count st
     \<and> files st1 =
         (if res = None \<and> files st (local_path_of p fo obj) \<noteq> None \<and> rename_error env = None
          then ((files st)(local_path_of p fo obj := None))
                 (archive_path_of p fo (obj, env) := files st (local_path_of p fo obj))
          else files st)"
proof (cases "files st (local_path_of p fo obj)")
  case None
  with run show ?thesis
    by (simp add: backup_version_def version_effects_def version_log_def)
next
  case (Some old)
  show ?thesis
  proof (cases "versions_error env")
    case e: (Some e)
    with run Some show ?thesis
      by (auto simp: backup_version_def)
  next
    case None
    with run Some show ?thesis
      by (cases "rename_error env")
         (auto simp: backup_version_def version_effects_def version_log_def archive_path_of_def
            write_log_def Let_def)
  qed
qed

lemma backup_object_changed:
  assumes d: "backup_detect (backup_history st) (obj_key obj) (obj_last_modified obj) (etag_of obj)
                = (True, r)"
    and mk: "makedirs_error env = None"
    and ve: "files st (local_path_of p fo obj) \<noteq> None \<longrightarrow> versions_error env = None"
  shows "fst (backup_object v p fo obj env st) = None
     \<and> effects (snd (backup_object v p fo obj env st)) =
           effects st @ version_effects p fo obj env st
             @ schedule (obj_key obj) (local_path_of p fo obj) (attempts_made obj env)
     \<and> ((\<forall>a < 3. \<not> size_verified obj env a) \<longrightarrow>
           backup_history (snd (backup_object v p fo obj env st)) = backup_history st)
     \<and> (attempts_made obj env = 3 \<and> attempt_error obj env 2 = Some e \<longrightarrow>
           backup_log (snd (backup_object v p fo obj env st)) =
             backup_log st @ version_log p fo obj env st
               @ [LogRetry 1 (obj_key obj), LogRetry 2 (obj_key obj),
                  LogBackupFailed (obj_key obj) e]
           \<and> b_consecutive_errors (snd (backup_object v p fo obj env st)) =
               b_consecutive_errors st + 1)"
proof -
  let ?lp = "local_path_of p fo obj"
  obtain r1 st1 where ver: "backup_version fo (rel_path p (obj_key obj)) ?lp env st = (r1, st1)"
    by (cases "backup_version fo (rel_path p (obj_key obj)) ?lp env st")
  note fv = backup_version_result [OF ver]
  have r1: "r1 = None"
    using fv ve by (auto split: if_splits)
  obtain res ok st2 where run: "backup_attempts obj ?lp r env [0, 1, 2] st1 = (res, ok, st2)"
    by (cases "backup_attempts obj ?lp r env [0, 1, 2] st1") auto
  note fa = backup_attempts_result [OF run]
  have ok: "ok = (res = None)"
    using fa by simp
  have obj: "backup_object v p fo obj env st =
     (case res of None \<Rightarrow> (None, st2)
      | Some e \<Rightarrow> (None, (write_log (LogBackupFailed (obj_key obj) e) st2)
                             \<lparr>b_consecutive_errors := b_consecutive_errors st2 + 1\<rparr>))"
    using d mk ver [unfolded local_path_of_def] run [unfolded local_path_of_def] r1 ok
    by (simp add: backup_object_def backup_download_def upt_max_retries Let_def
          split: option.splits)
  have u: "[Suc 0..<3] = [Suc 0, 2]"
    by (simp add: upt_rec numeral_eq_Suc)
  show ?thesis
    using fv fa r1 unfolding obj by (cases res) (auto simp: write_log_def u)
qed

subsection \<open>C2: an entry is stored only for a verified download\<close>

lemma mismatch_attempt_error:
  "\<forall>a<3. \<exists>f. download env a = Writes f \<and> file_size f \<noteq> size_of obj \<Longrightarrow>
    attempts_made obj env = 3
    \<and> attempt_error obj env 2 = Some ''File integrity check failed''
    \<and> (\<forall>a<3. \<not> size_verified obj env a)"
  by (auto simp: all_below_3 attempts_made_def attempt_error_def size_verified_def)

text \<open>
  C2. In both threads an attempt that raises, or that writes a file whose size differs
  from the reported size, ends in an exception and leaves the mapping as it was; an
  attempt that writes a file of the reported size stores the complete entry of the key,
  with that file at the destination. When all three attempts write a file of the wrong
  size, the download is called three times (with the sleeps of 1 and 2 between), the
  mapping is unchanged, and the failure is logged and counted for the object.
\<close>

theorem entry_stored_only_when_verified:
  "(\<not> size_verified obj env a \<longrightarrow>
      last_seen (snd (monitor_attempt obj lp r env a st)) = last_seen st
      \<and> fst (monitor_attempt obj lp r env a st) \<noteq> None
      \<and> backup_history (snd (backup_attempt obj lp r env a bst)) = backup_history bst
      \<and> fst (backup_attempt obj lp r env a bst) \<noteq> None)
   \<and> (download env a = Writes f \<and> file_size f = size_of obj \<longrightarrow>
      last_seen (snd (monitor_attempt obj lp r env a st)) =
        dict_set (obj_key obj) (monitor_entry obj f (clock env a)) (last_seen st)
      \<and> files (snd (monitor_attempt obj lp r env a st)) lp = Some f
      \<and> backup_history (snd (backup_attempt obj lp r env a bst)) =
        dict_set (obj_key obj) (backup_entry obj f (clock env a) (backup_count bst))
          (backup_history bst)
      \<and> files (snd (backup_attempt obj lp r env a bst)) lp = Some f)
   \<and> ((\<forall>a<3. \<exists>f. download env a = Writes f \<and> file_size f \<noteq> size_of obj)
       \<and> makedirs_error env = None \<longrightarrow>
      (monitor_detect (last_seen st) (obj_key obj) (obj_last_modified obj) (etag_of obj) \<noteq> None
       \<longrightarrow>
         last_seen (monitor_object v p fo obj env st) = last_seen st
         \<and> effects (monitor_object v p fo obj env st) =
             effects st @ [Download (obj_key obj) (local_path_of p fo obj), Sleep 1,
                           Download (obj_key obj) (local_path_of p fo obj), Sleep 2,
                           Download (obj_key obj) (local_path_of p fo obj)]
         \<and> monitor_log (monitor_object v p fo obj env st) =
             monitor_log st @ (if v then [LogChecked (obj_key obj)] else [])
               @ [LogDownloadFailed (obj_key obj) ''File integrity check failed'']
         \<and> stats_errors (monitor_object v p fo obj env st) = stats_errors st + 1)
      \<and> (fst (backup_detect (backup_history bst) (obj_key obj) (obj_last_modified obj)
                 (etag_of obj))
          \<and> (files bst (local_path_of p fo obj) \<noteq> None \<longrightarrow> versions_error env = None)
       \<longrightarrow>
         fst (backup_object v p fo obj env bst) = None
         \<and> backup_history (snd (backup_object v p fo obj env bst)) = backup_history bst
         \<and> effects (snd (backup_object v p fo obj env bst)) =
             effects bst @ version_effects p fo obj env bst
               @ [Download (obj_key obj) (local_path_of p fo obj), Sleep 1,
                  Download (obj_key obj) (local_path_of p fo obj), Sleep 2,
                  Download (obj_key obj) (local_path_of p fo obj)]
         \<and> backup_log (snd (backup_object v p fo obj env bst)) =
             backup_log bst @ version_log p fo obj env bst
               @ [LogRetry 1 (obj_key obj), LogRetry 2 (obj_key obj),
                  LogBackupFailed (obj_key obj) ''File integrity check failed'']
         \<and> b_consecutive_errors (snd (backup_object v p fo obj env bst)) =
             b_consecutive_errors bst + 1))"
proof -
  obtain mr ms where m: "monitor_attempt obj lp r env a st = (mr, ms)"
    by (cases "monitor_attempt obj lp r env a st")
  obtain br bs where b: "backup_attempt obj lp r env a bst = (br, bs)"
    by (cases "backup_attempt obj lp r env a bst")
  note fm = monitor_attempt_result [OF m]
  note fb = backup_attempt_result [OF b]
  have e: "\<not> size_verified obj env a \<Longrightarrow> attempt_error obj env a \<noteq> None"
    by (auto simp: size_verified_def attempt_error_def split: download_result.splits)
  have 1: "\<not> size_verified obj env a \<longrightarrow>
      last_seen (snd (monitor_attempt obj lp r env a st)) = last_seen st
      \<and> fst (monitor_attempt obj lp r env a st) \<noteq> None
      \<and> backup_history (snd (backup_attempt obj lp r env a bst)) = backup_history bst
      \<and> fst (backup_attempt obj lp r env a bst) \<noteq> None"
    using fm fb e by (auto simp: m b)
  have 2: "download env a = Writes f \<and> file_size f = size_of obj \<longrightarrow>
      last_seen (snd (monitor_attempt obj lp r env a st)) =
        dict_set (obj_key obj) (monitor_entry obj f (clock env a)) (last_seen st)
      \<and> files (snd (monitor_attempt obj lp r env a st)) lp = Some f
      \<and> backup_history (snd (backup_attempt obj lp r env a bst)) =
        dict_set (obj_key obj) (backup_entry obj f (clock env a) (backup_count bst))
          (backup_history bst)
      \<and> files (snd (backup_attempt obj lp r env a bst)) lp = Some f"
    using fm fb by (simp add: m b)
  have 3: "monitor_detect (last_seen st) (obj_key obj) (obj_last_modified obj) (etag_of obj) \<noteq> None
       \<longrightarrow>
         last_seen (monitor_object v p fo obj env st) = last_seen st
         \<and> effects (monitor_object v p fo obj env st) =
             effects st @ [Download (obj_key obj) (local_path_of p fo obj), Sleep 1,
                           Download (obj_key obj) (local_path_of p fo obj), Sleep 2,
                           Download (obj_key obj) (local_path_of p fo obj)]
         \<and> monitor_log (monitor_object v p fo obj env st) =
             monitor_log st @ (if v then [LogChecked (obj_key obj)] else [])
               @ [LogDownloadFailed (obj_key obj) ''File integrity check failed'']
         \<and> stats_errors (monitor_object v p fo obj env st) = stats_errors st + 1"
    if mis: "\<forall>a<3. \<exists>f. download env a = Writes f \<and> file_size f \<noteq> size_of obj"
      and mk: "makedirs_error env = None"
  proof
    assume "monitor_detect (last_seen st) (obj_key obj) (obj_last_modified obj) (etag_of obj) \<noteq> None"
    then obtain reason where d:
      "monitor_detect (last_seen st) (obj_key obj) (obj_last_modified obj) (etag_of obj) = Some reason"
      by auto
    show "last_seen (monitor_object v p fo obj env st) = last_seen st
         \<and> effects (monitor_object v p fo obj env st) =
             effects st @ [Download (obj_key obj) (local_path_of p fo obj), Sleep 1,
                           Download (obj_key obj) (local_path_of p fo obj), Sleep 2,
                           Download (obj_key obj) (local_path_of p fo obj)]
         \<and> monitor_log (monitor_object v p fo obj env st) =
             monitor_log st @ (if v then [LogChecked (obj_key obj)] else [])
               @ [LogDownloadFailed (obj_key obj) ''File integrity check failed'']
         \<and> stats_errors (monitor_object v p fo obj env st) = stats_errors st + 1"
      using monitor_object_changed [OF d mk, of v p fo "''File integrity check failed''"]
        mismatch_attempt_error [OF mis]
      by (simp add: schedule_simps)
  qed
  have 4: "fst (backup_detect (backup_history bst) (obj_key obj) (obj_last_modified obj)
                 (etag_of obj))
          \<and> (files bst (local_path_of p fo obj) \<noteq> None \<longrightarrow> versions_error env = None)
       \<longrightarrow>
         fst (backup_object v p fo obj env bst) = None
         \<and> backup_history (snd (backup_object v p fo obj env bst)) = backup_history bst
         \<and> effects (snd (backup_object v p fo obj env bst)) =
             effects bst @ version_effects p fo obj env bst
               @ [Download (obj_key obj) (local_path_of p fo obj), Sleep 1,
                  Download (obj_key obj) (local_path_of p fo obj), Sleep 2,
                  Download (obj_key obj) (local_path_of p fo obj)]
         \<and> backup_log (snd (backup_object v p fo obj env bst)) =
             backup_log bst @ version_log p fo obj env bst
               @ [LogRetry 1 (obj_key obj), LogRetry 2 (obj_key obj),
                  LogBackupFailed (obj_key obj) ''File integrity check failed'']
         \<and> b_consecutive_errors (snd (backup_object v p fo obj env bst)) =
             b_consecutive_errors bst + 1"
    if mis: "\<forall>a<3. \<exists>f. download env a = Writes f \<and> file_size f \<noteq> size_of obj"
      and mk: "makedirs_error env = None"
  proof
    assume h: "fst (backup_detect (backup_history bst) (obj_key obj) (obj_last_modified obj)
                 (etag_of obj))
          \<and> (files bst (local_path_of p fo obj) \<noteq> None \<longrightarrow> versions_error env = None)"
    then obtain reason where d:
      "backup_detect (backup_history bst) (obj_key obj) (obj_last_modified obj) (etag_of obj)
         = (True, reason)"
      by (cases "backup_detect (backup_history bst) (obj_key obj) (obj_last_modified obj)
                   (etag_of obj)") auto
    from h have ve: "files bst (local_path_of p fo obj) \<noteq> None \<longrightarrow> versions_error env = None"
      by simp
    show "fst (backup_object v p fo obj env bst) = None
         \<and> backup_history (snd (backup_object v p fo obj env bst)) = backup_history bst
         \<and> effects (snd (backup_object v p fo obj env bst)) =
             effects bst @ version_effects p fo obj env bst
               @ [Download (obj_key obj) (local_path_of p fo obj), Sleep 1,
                  Download (obj_key obj) (local_path_of p fo obj), Sleep 2,
                  Download (obj_key obj) (local_path_of p fo obj)]
         \<and> backup_log (snd (backup_object v p fo obj env bst)) =
             backup_log bst @ version_log p fo obj env bst
               @ [LogRetry 1 (obj_key obj), LogRetry 2 (obj_key obj),
                  LogBackupFailed (obj_key obj) ''File integrity check failed'']
         \<and> b_consecutive_errors (snd (backup_object v p fo obj env bst)) =
             b_consecutive_errors bst + 1"
      using backup_object_changed [OF d mk ve, of v "''File integrity check failed''"]
        mismatch_attempt_error [OF mis]
      by (simp add: schedule_simps)
  qed
  show ?thesis
    using 1 2 3 4 by blast
qed

theorem entry_stored_only_when_verified_witness:
  "last_seen (snd (monitor_attempt a_txt ''/m/a.txt'' ''new file'' env_short 0
      (monitor_start ''/m'' 60 [] empty_world))) = []
   \<and> fst (monitor_attempt a_txt ''/m/a.txt'' ''new file'' env_short 0
      (monitor_start ''/m'' 60 [] empty_world)) \<noteq> None
   \<and> backup_history (snd (backup_attempt a_txt ''/m/a.txt'' ''new file'' env_short 0
      (backup_start ''/m'' 10 empty_world))) = []
   \<and> last_seen (snd (monitor_attempt a_txt ''/m/a.txt'' ''new file'' env_ok 0
      (monitor_start ''/m'' 60 [] empty_world))) = [(''a.txt'', a_txt_entry)]
   \<and> files (snd (backup_attempt a_txt ''/m/a.txt'' ''new file'' env_ok 0
      (backup_start ''/m'' 10 empty_world))) ''/m/a.txt'' = Some abc_file
   \<and> last_seen (monitor_object False [] ''/m'' a_txt env_short
      (monitor_start ''/m'' 60 [] empty_world)) = []
   \<and> effects (monitor_object False [] ''/m'' a_txt env_short
      (monitor_start ''/m'' 60 [] empty_world)) =
        [Download ''a.txt'' ''/m/a.txt'', Sleep 1, Download ''a.txt'' ''/m/a.txt'', Sleep 2,
         Download ''a.txt'' ''/m/a.txt'']
   \<and> monitor_log (monitor_object False [] ''/m'' a_txt env_short
      (monitor_start ''/m'' 60 [] empty_world)) =
        [LogDownloadFailed ''a.txt'' ''File integrity check failed'']
   \<and> backup_history (snd (backup_object False [] ''/m'' a_txt env_short
      (backup_start ''/m'' 10 empty_world))) = []
   \<and> backup_log (snd (backup_object False [] ''/m'' a_txt env_short
      (backup_start ''/m'' 10 empty_world))) =
        [LogRetry 1 ''a.txt'', LogRetry 2 ''a.txt'',
         LogBackupFailed ''a.txt'' ''File integrity check failed'']"
  using entry_stored_only_when_verified
    [where obj = a_txt and env = env_short and a = 0 and lp = "''/m/a.txt''"
       and r = "''new file''" and st = "monitor_start ''/m'' 60 [] empty_world"
       and bst = "backup_start ''/m'' 10 empty_world" and f = ab_file and v = False
       and p = "[]" and fo = "''/m''"]
    entry_stored_only_when_verified
    [where obj = a_txt and env = env_ok and a = 0 and lp = "''/m/a.txt''"
       and r = "''new file''" and st = "monitor_start ''/m'' 60 [] empty_world"
       and bst = "backup_start ''/m'' 10 empty_world" and f = abc_file and v = False
       and p = "[]" and fo = "''/m''"]
  by (simp add: size_verified_def env_short_def env_ok_def ab_file_def abc_file_def a_txt_def
      size_of_def etag_of_def strip_quotes_def monitor_start_def backup_start_def
      empty_world_def load_backup_metadata_def metadata_path_def path_join_def rel_path_def
      local_path_of_def monitor_detect_def backup_detect_def monitor_entry_def
      backup_entry_def a_txt_entry_def version_effects_def version_log_def)


subsection \<open>C6: the retry schedule\<close>

lemma monitor_object_effects:
  "effects (monitor_object v p fo obj env st) =
     effects st @
       (if monitor_detect (last_seen st) (obj_key obj) (obj_last_modified obj) (etag_of obj) \<noteq> None
           \<and> makedirs_error env = None
        then schedule (obj_key obj) (local_path_of p fo obj) (attempts_made obj env) else [])"
proof (cases "monitor_detect (last_seen st) (obj_key obj) (obj_last_modified obj) (etag_of obj)")
  case None
  then show ?thesis by (simp add: monitor_object_def Let_def)
next
  case (Some r)
  show ?thesis
  proof (cases "makedirs_error env")
    case None
    with Some monitor_object_changed [OF Some None, of v p fo] show ?thesis by simp
  next
    case e: (Some e)
    with Some show ?thesis by (simp add: monitor_object_def monitor_download_def Let_def)
  qed
qed

lemma backup_object_raises:
  "fst (backup_object v p fo obj env st) =
     (if fst (backup_detect (backup_history st) (obj_key obj) (obj_last_modified obj) (etag_of obj))
         \<and> files st (local_path_of p fo obj) \<noteq> None
      then versions_error env else None)"
  by (simp add: backup_object_def backup_version_def local_path_of_def write_log_def Let_def
      split: prod.splits option.splits bool.splits)

lemma backup_object_effects:
  assumes "fst (backup_object v p fo obj env st) = None"
  shows "effects (snd (backup_object v p fo obj env st)) =
     effects st @
       (if fst (backup_detect (backup_history st) (obj_key obj) (obj_last_modified obj) (etag_of obj))
        then version_effects p fo obj env st @
               (if makedirs_error env = None
                then schedule (obj_key obj) (local_path_of p fo obj) (attempts_made obj env)
                else [])
        else [])"
proof (cases "backup_detect (backup_history st) (obj_key obj) (obj_last_modified obj) (etag_of obj)")
  case (Pair needs r)
  show ?thesis
  proof (cases needs)
    case False
    with Pair show ?thesis by (simp add: backup_object_def write_log_def Let_def)
  next
    case True
    have ve: "files st (local_path_of p fo obj) \<noteq> None \<longrightarrow> versions_error env = None"
      using assms Pair True by (auto simp: backup_object_raises split: if_splits)
    show ?thesis
    proof (cases "makedirs_error env")
      case None
      with Pair True backup_object_changed [OF _ None ve, of r v] show ?thesis by simp
    next
      case e: (Some e)
      obtain r1 st1 where ver:
        "backup_version fo (rel_path p (obj_key obj)) (local_path_of p fo obj) env st = (r1, st1)"
        by (cases "backup_version fo (rel_path p (obj_key obj)) (local_path_of p fo obj) env st")
      note fv = backup_version_result [OF ver]
      have r1: "r1 = None"
        using fv ve by (auto split: if_splits)
      show ?thesis
        using Pair True e fv r1 ver [unfolded local_path_of_def]
        by (simp add: backup_object_def backup_download_def write_log_def Let_def)
    qed
  qed
qed

lemma all_fail_attempts_made: "\<forall>a<3. attempt_error obj env a \<noteq> None \<Longrightarrow> attempts_made obj env = 3"
  by (simp add: all_below_3 attempts_made_def)

text \<open>
  C6. In both threads the calls of \<^verbatim>\<open>download_file\<close> and \<^verbatim>\<open>time.sleep\<close> for one object
  are the specified schedule for the number of attempts made, which is at most three:
  attempt \<open>i\<close>, from the second on, comes after a sleep of \<open>2 ^ (i - 2)\<close>, that is 1 and
  then 2. When all three attempts fail, the error of the last one is logged as the
  failure of the object and counted, and the object loop goes on with the next object:
  no exception leaves the processing of an object in the monitor (its pass raises only
  if the paginator does), and in the backup only a failure to create \<^verbatim>\<open>.versions\<close> does,
  never a download.
\<close>

theorem three_attempts_then_next_object:
  "attempts_made obj env \<le> 3
   \<and> schedule k lp 3 = [Download k lp, Sleep 1, Download k lp, Sleep 2, Download k lp]
   \<and> effects (monitor_object v p fo obj env st) =
       effects st @
         (if monitor_detect (last_seen st) (obj_key obj) (obj_last_modified obj) (etag_of obj) \<noteq> None
             \<and> makedirs_error env = None
          then schedule (obj_key obj) (local_path_of p fo obj) (attempts_made obj env) else [])
   \<and> (fst (backup_object v p fo obj env bst) = None \<longrightarrow>
        effects (snd (backup_object v p fo obj env bst)) =
          effects bst @
            (if fst (backup_detect (backup_history bst) (obj_key obj) (obj_last_modified obj)
                      (etag_of obj))
             then version_effects p fo obj env bst @
                    (if makedirs_error env = None
                     then schedule (obj_key obj) (local_path_of p fo obj) (attempts_made obj env)
                     else [])
             else []))
   \<and> ((\<forall>a<3. attempt_error obj env a \<noteq> None) \<and> attempt_error obj env 2 = Some e
       \<and> makedirs_error env = None \<longrightarrow>
        (monitor_detect (last_seen st) (obj_key obj) (obj_last_modified obj) (etag_of obj) \<noteq> None
         \<longrightarrow>
           monitor_log (monitor_object v p fo obj env st) =
             monitor_log st @ (if v then [LogChecked (obj_key obj)] else [])
               @ [LogDownloadFailed (obj_key obj) e]
           \<and> stats_errors (monitor_object v p fo obj env st) = stats_errors st + 1)
        \<and> (fst (backup_detect (backup_history bst) (obj_key obj) (obj_last_modified obj)
                   (etag_of obj))
            \<and> (files bst (local_path_of p fo obj) \<noteq> None \<longrightarrow> versions_error env = None)
         \<longrightarrow>
           fst (backup_object v p fo obj env bst) = None
           \<and> backup_log (snd (backup_object v p fo obj env bst)) =
               backup_log bst @ version_log p fo obj env bst
                 @ [LogRetry 1 (obj_key obj), LogRetry 2 (obj_key obj),
                    LogBackupFailed (obj_key obj) e]
           \<and> b_consecutive_errors (snd (backup_object v p fo obj env bst)) =
               b_consecutive_errors bst + 1))
   \<and> (\<not> stop_requested env \<longrightarrow>
        monitor_objects v p fo ((obj, env) # rest) st =
          monitor_objects v p fo rest
            (monitor_object v p fo obj env (st\<lparr>effects := effects st @ [StopCheck]\<rparr>)))
   \<and> (\<not> stop_requested env
       \<and> fst (backup_object v p fo obj env (bst\<lparr>effects := effects bst @ [StopCheck]\<rparr>)) = None
       \<longrightarrow>
        backup_objects v p fo ((obj, env) # rest) bst =
          backup_objects v p fo rest
            (snd (backup_object v p fo obj env (bst\<lparr>effects := effects bst @ [StopCheck]\<rparr>))))
   \<and> (fst (backup_object v p fo obj env bst) \<noteq> None \<longrightarrow>
        fst (backup_object v p fo obj env bst) = versions_error env
        \<and> files bst (local_path_of p fo obj) \<noteq> None)
   \<and> (fst (monitor_pages v p fo ps st) = None \<longleftrightarrow> (\<forall>e. ListingError e \<notin> set ps))"
proof -
  have 1: "attempts_made obj env \<le> 3"
    by (simp add: attempts_made_def)
  have 2: "schedule k lp 3 = [Download k lp, Sleep 1, Download k lp, Sleep 2, Download k lp]"
    by (rule schedule_simps)
  have 5: "(monitor_detect (last_seen st) (obj_key obj) (obj_last_modified obj) (etag_of obj) \<noteq> None
         \<longrightarrow>
           monitor_log (monitor_object v p fo obj env st) =
             monitor_log st @ (if v then [LogChecked (obj_key obj)] else [])
               @ [LogDownloadFailed (obj_key obj) e]
           \<and> stats_errors (monitor_object v p fo obj env st) = stats_errors st + 1)
        \<and> (fst (backup_detect (backup_history bst) (obj_key obj) (obj_last_modified obj)
                   (etag_of obj))
            \<and> (files bst (local_path_of p fo obj) \<noteq> None \<longrightarrow> versions_error env = None)
         \<longrightarrow>
           fst (backup_object v p fo obj env bst) = None
           \<and> backup_log (snd (backup_object v p fo obj env bst)) =
               backup_log bst @ version_log p fo obj env bst
                 @ [LogRetry 1 (obj_key obj), LogRetry 2 (obj_key obj),
                    LogBackupFailed (obj_key obj) e]
           \<and> b_consecutive_errors (snd (backup_object v p fo obj env bst)) =
               b_consecutive_errors bst + 1)"
    if fail: "\<forall>a<3. attempt_error obj env a \<noteq> None" and last: "attempt_error obj env 2 = Some e"
      and mk: "makedirs_error env = None"
  proof (intro conjI impI)
    assume "monitor_detect (last_seen st) (obj_key obj) (obj_last_modified obj) (etag_of obj) \<noteq> None"
    then obtain reason where d:
      "monitor_detect (last_seen st) (obj_key obj) (obj_last_modified obj) (etag_of obj) = Some reason"
      by auto
    show "monitor_log (monitor_object v p fo obj env st) =
             monitor_log st @ (if v then [LogChecked (obj_key obj)] else [])
               @ [LogDownloadFailed (obj_key obj) e]"
        "stats_errors (monitor_object v p fo obj env st) = stats_errors st + 1"
      using monitor_object_changed [OF d mk, of v p fo e] all_fail_attempts_made [OF fail] last
      by simp_all
  next
    assume h: "fst (backup_detect (backup_history bst) (obj_key obj) (obj_last_modified obj)
                   (etag_of obj))
            \<and> (files bst (local_path_of p fo obj) \<noteq> None \<longrightarrow> versions_error env = None)"
    then obtain reason where d:
      "backup_detect (backup_history bst) (obj_key obj) (obj_last_modified obj) (etag_of obj)
         = (True, reason)"
      by (cases "backup_detect (backup_history bst) (obj_key obj) (obj_last_modified obj)
                   (etag_of obj)") auto
    from h have ve: "files bst (local_path_of p fo obj) \<noteq> None \<longrightarrow> versions_error env = None"
      by simp
    show "fst (backup_object v p fo obj env bst) = None"
       "backup_log (snd (backup_object v p fo obj env bst)) =
               backup_log bst @ version_log p fo obj env bst
                 @ [LogRetry 1 (obj_key obj), LogRetry 2 (obj_key obj),
                    LogBackupFailed (obj_key obj) e]"
       "b_consecutive_errors (snd (backup_object v p fo obj env bst)) =
               b_consecutive_errors bst + 1"
      using backup_object_changed [OF d mk ve, of v e] all_fail_attempts_made [OF fail] last
      by simp_all
  qed
  have 6: "\<not> stop_requested env \<longrightarrow>
        monitor_objects v p fo ((obj, env) # rest) st =
          monitor_objects v p fo rest
            (monitor_object v p fo obj env (st\<lparr>effects := effects st @ [StopCheck]\<rparr>))"
    by (simp add: Let_def)
  have 7: "\<not> stop_requested env
       \<and> fst (backup_object v p fo obj env (bst\<lparr>effects := effects bst @ [StopCheck]\<rparr>)) = None
       \<longrightarrow>
        backup_objects v p fo ((obj, env) # rest) bst =
          backup_objects v p fo rest
            (snd (backup_object v p fo obj env (bst\<lparr>effects := effects bst @ [StopCheck]\<rparr>)))"
    by (cases "backup_object v p fo obj env (bst\<lparr>effects := effects bst @ [StopCheck]\<rparr>)")
       (auto simp: Let_def)
  have 8: "fst (backup_object v p fo obj env bst) \<noteq> None \<longrightarrow>
        fst (backup_object v p fo obj env bst) = versions_error env
        \<and> files bst (local_path_of p fo obj) \<noteq> None"
    by (auto simp: backup_object_raises split: if_splits)
  show ?thesis
    using 1 2 5 6 7 8 monitor_object_effects [of v p fo obj env st]
      backup_object_effects [of v p fo obj env bst] monitor_pages_raises [of v p fo ps st]
    by blast
qed

theorem three_attempts_then_next_object_witness:
  "effects (monitor_object False [] ''/m'' a_txt env_raising (monitor_start ''/m'' 60 [] empty_world)) =
     [Download ''a.txt'' ''/m/a.txt'', Sleep 1, Download ''a.txt'' ''/m/a.txt'', Sleep 2,
      Download ''a.txt'' ''/m/a.txt'']
   \<and> monitor_log (monitor_object False [] ''/m'' a_txt env_raising
        (monitor_start ''/m'' 60 [] empty_world)) = [LogDownloadFailed ''a.txt'' ''ReadTimeoutError'']
   \<and> stats_errors (monitor_object False [] ''/m'' a_txt env_raising
        (monitor_start ''/m'' 60 [] empty_world)) = 1
   \<and> fst (backup_object False [] ''/m'' a_txt env_raising (backup_start ''/m'' 10 empty_world)) = None
   \<and> effects (snd (backup_object False [] ''/m'' a_txt env_raising
        (backup_start ''/m'' 10 empty_world))) =
     [Download ''a.txt'' ''/m/a.txt'', Sleep 1, Download ''a.txt'' ''/m/a.txt'', Sleep 2,
      Download ''a.txt'' ''/m/a.txt'']
   \<and> backup_log (snd (backup_object False [] ''/m'' a_txt env_raising
        (backup_start ''/m'' 10 empty_world))) =
     [LogRetry 1 ''a.txt'', LogRetry 2 ''a.txt'', LogBackupFailed ''a.txt'' ''ReadTimeoutError'']
   \<and> monitor_objects False [] ''/m'' [(a_txt, env_raising), (a_txt, env_ok)]
        (monitor_start ''/m'' 60 [] empty_world) =
       monitor_objects False [] ''/m'' [(a_txt, env_ok)]
         (monitor_object False [] ''/m'' a_txt env_raising
            ((monitor_start ''/m'' 60 [] empty_world)\<lparr>effects := [StopCheck]\<rparr>))
   \<and> fst (backup_object False [] ''/m'' a_txt (env_ok\<lparr>versions_error := Some ''PermissionError''\<rparr>)
        (backup_start ''/m'' 10 (empty_world\<lparr>files := [''/m/a.txt'' \<mapsto> ab_file]\<rparr>)))
       = Some ''PermissionError''"
  using three_attempts_then_next_object
    [where obj = a_txt and env = env_raising and k = "''a.txt''" and lp = "''/m/a.txt''"
       and v = False and p = "[]" and fo = "''/m''"
       and st = "monitor_start ''/m'' 60 [] empty_world"
       and bst = "backup_start ''/m'' 10 empty_world" and e = "''ReadTimeoutError''"
       and rest = "[(a_txt, env_ok)]" and ps = "[]"]
    three_attempts_then_next_object
    [where obj = a_txt and env = "env_ok\<lparr>versions_error := Some ''PermissionError''\<rparr>"
       and k = "''a.txt''" and lp = "''/m/a.txt''"
       and v = False and p = "[]" and fo = "''/m''"
       and st = "monitor_start ''/m'' 60 [] empty_world"
       and bst = "backup_start ''/m'' 10 (empty_world\<lparr>files := [''/m/a.txt'' \<mapsto> ab_file]\<rparr>)"
       and e = "''ReadTimeoutError''"
       and rest = "[(a_txt, env_ok)]" and ps = "[]"]
  by (simp add: backup_object_raises all_below_3 attempt_error_def attempts_made_def
      schedule_simps env_raising_def env_ok_def ab_file_def abc_file_def a_txt_def
      size_of_def etag_of_def strip_quotes_def monitor_start_def backup_start_def
      empty_world_def load_backup_metadata_def metadata_path_def path_join_def rel_path_def
      local_path_of_def monitor_detect_def backup_detect_def version_effects_def
      version_log_def)


subsection \<open>C7: versioning\<close>













subsection \<open>C9: a second cycle over an unchanged listing\<close>

lemma up_to_date_monitor: "up_to_date m obj \<longleftrightarrow>
    monitor_detect m (obj_key obj) (obj_last_modified obj) (etag_of obj) = None"
  by (auto simp: up_to_date_def classify_spec_def monitor_detect_def
      split: option.splits stored_info.splits)

lemma up_to_date_backup: "up_to_date m obj \<longleftrightarrow>
    \<not> fst (backup_detect m (obj_key obj) (obj_last_modified obj) (etag_of obj))"
  by (auto simp: up_to_date_def classify_spec_def backup_detect_def
      split: option.splits stored_info.splits)

lemma up_to_date_cong:
  "map_of m' (obj_key obj) = map_of m (obj_key obj) \<Longrightarrow> up_to_date m' obj = up_to_date m obj"
  by (simp add: up_to_date_def)

lemma up_to_date_monitor_entry: "up_to_date (dict_set (obj_key obj) (monitor_entry obj f now) m) obj"
  by (simp add: up_to_date_def classify_spec_def map_of_dict_set monitor_entry_def dict_get_def)

lemma up_to_date_backup_entry: "up_to_date (dict_set (obj_key obj) (backup_entry obj f now n) m) obj"
  by (simp add: up_to_date_def classify_spec_def map_of_dict_set backup_entry_def dict_get_def)

text \<open>An attempt keeps an up-to-date entry up to date, and a verified one makes it so.\<close>

lemma monitor_attempt_up_to_date:
  assumes "monitor_attempt obj lp r env a st = (res, st')"
  shows "(up_to_date (last_seen st) obj \<or> size_verified obj env a)
         \<longrightarrow> up_to_date (last_seen st') obj"
proof (cases "size_verified obj env a")
  case False
  with monitor_attempt_result [OF assms] show ?thesis by simp
next
  case True
  then obtain f where "download env a = Writes f" "file_size f = size_of obj"
    by (auto simp: size_verified_def split: download_result.splits)
  with monitor_attempt_result [OF assms] show ?thesis
    by (simp add: up_to_date_monitor_entry)
qed

lemma backup_attempt_up_to_date:
  assumes "backup_attempt obj lp r env a st = (res, st')"
  shows "(up_to_date (backup_history st) obj \<or> size_verified obj env a)
         \<longrightarrow> up_to_date (backup_history st') obj"
proof (cases "size_verified obj env a")
  case False
  with backup_attempt_result [OF assms] show ?thesis by simp
next
  case True
  then obtain f where "download env a = Writes f" "file_size f = size_of obj"
    by (auto simp: size_verified_def split: download_result.splits)
  with backup_attempt_result [OF assms] show ?thesis
    by (simp add: up_to_date_backup_entry)
qed

lemma monitor_attempts_up_to_date:
  assumes run: "monitor_attempts obj lp r env [0, 1, 2] st = (res, st')"
    and v0: "size_verified obj env 0"
  shows "up_to_date (last_seen st') obj"
proof -
  obtain r0 s0 where a0: "monitor_attempt obj lp r env 0 st = (r0, s0)"
    by (cases "monitor_attempt obj lp r env 0 st")
  have u0: "up_to_date (last_seen s0) obj"
    using monitor_attempt_up_to_date [OF a0] v0 by simp
  let ?s0 = "s0\<lparr>effects := effects s0 @ [Sleep 1]\<rparr>"
  obtain r1 s1 where a1: "monitor_attempt obj lp r env 1 ?s0 = (r1, s1)"
    by (cases "monitor_attempt obj lp r env 1 ?s0")
  have u1: "up_to_date (last_seen s1) obj"
    using monitor_attempt_up_to_date [OF a1] u0 by simp
  let ?s1 = "s1\<lparr>effects := effects s1 @ [Sleep 2]\<rparr>"
  obtain r2 s2 where a2: "monitor_attempt obj lp r env 2 ?s1 = (r2, s2)"
    by (cases "monitor_attempt obj lp r env 2 ?s1")
  have u2: "up_to_date (last_seen s2) obj"
    using monitor_attempt_up_to_date [OF a2] u1 by simp
  have "st' = s0 \<or> st' = s1 \<or> st' = s2"
    using run [unfolded monitor_attempts_unfold] a0 a1 a2
    by (auto split: option.splits)
  with u0 u1 u2 show ?thesis by auto
qed

lemma backup_attempts_up_to_date:
  assumes run: "backup_attempts obj lp r env [0, 1, 2] st = (res, ok, st')"
    and v0: "size_verified obj env 0"
  shows "up_to_date (backup_history st') obj"
proof -
  obtain r0 s0 where a0: "backup_attempt obj lp r env 0 st = (r0, s0)"
    by (cases "backup_attempt obj lp r env 0 st")
  have u0: "up_to_date (backup_history s0) obj"
    using backup_attempt_up_to_date [OF a0] v0 by simp
  let ?s0 = "write_log (LogRetry 1 (obj_key obj)) (s0\<lparr>effects := effects s0 @ [Sleep 1]\<rparr>)"
  obtain r1 s1 where a1: "backup_attempt obj lp r env 1 ?s0 = (r1, s1)"
    by (cases "backup_attempt obj lp r env 1 ?s0")
  have u1: "up_to_date (backup_history s1) obj"
    using backup_attempt_up_to_date [OF a1] u0 by (simp add: write_log_def)
  let ?s1 = "write_log (LogRetry 2 (obj_key obj)) (s1\<lparr>effects := effects s1 @ [Sleep 2]\<rparr>)"
  obtain r2 s2 where a2: "backup_attempt obj lp r env 2 ?s1 = (r2, s2)"
    by (cases "backup_attempt obj lp r env 2 ?s1")
  have u2: "up_to_date (backup_history s2) obj"
    using backup_attempt_up_to_date [OF a2] u1 by (simp add: write_log_def)
  have "st' = s0 \<or> st' = s1 \<or> st' = s2"
    using run [unfolded backup_attempts_unfold] a0 a1 a2
    by (auto split: option.splits)
  with u0 u1 u2 show ?thesis by auto
qed

lemma monitor_object_up_to_date:
  assumes mk: "makedirs_error env = None" and v0: "size_verified obj env 0"
  shows "up_to_date (last_seen (monitor_object v p fo obj env st)) obj"
proof (cases "monitor_detect (last_seen st) (obj_key obj) (obj_last_modified obj) (etag_of obj)")
  case None
  then have "up_to_date (last_seen st) obj"
    by (simp add: up_to_date_monitor)
  with None show ?thesis by (simp add: monitor_object_def Let_def)
next
  case (Some r)
  let ?st2 = "if v then st\<lparr>files_checked := files_checked st + 1,
                   stats_checked := stats_checked st + 1,
                   monitor_log := monitor_log st @ [LogChecked (obj_key obj)]\<rparr>
              else st\<lparr>files_checked := files_checked st + 1,
                   stats_checked := stats_checked st + 1\<rparr>"
  obtain res st3 where run:
    "monitor_attempts obj (local_path_of p fo obj) r env [0, 1, 2] ?st2 = (res, st3)"
    by (cases "monitor_attempts obj (local_path_of p fo obj) r env [0, 1, 2] ?st2")
  have u: "up_to_date (last_seen st3) obj"
    by (rule monitor_attempts_up_to_date [OF run v0])
  have obj: "monitor_object v p fo obj env st =
     (case res of None \<Rightarrow> st3
      | Some e \<Rightarrow> st3\<lparr>monitor_log := monitor_log st3 @ [LogDownloadFailed (obj_key obj) e],
                       stats_errors := stats_errors st3 + 1\<rparr>)"
    using Some mk run
    by (simp add: monitor_object_def monitor_download_def upt_max_retries Let_def
          local_path_of_def split: if_splits)
  show ?thesis
    using u unfolding obj by (cases res) auto
qed

lemma backup_object_up_to_date:
  assumes mk: "makedirs_error env = None" and v0: "size_verified obj env 0"
    and ve: "versions_error env = None"
  shows "fst (backup_object v p fo obj env st) = None
         \<and> up_to_date (backup_history (snd (backup_object v p fo obj env st))) obj"
proof (cases "backup_detect (backup_history st) (obj_key obj) (obj_last_modified obj) (etag_of obj)")
  case (Pair needs r)
  show ?thesis
  proof (cases needs)
    case False
    with Pair have "up_to_date (backup_history st) obj"
      by (simp add: up_to_date_backup)
    with Pair False show ?thesis by (simp add: backup_object_def write_log_def Let_def)
  next
    case True
    let ?lp = "local_path_of p fo obj"
    obtain r1 st1 where ver: "backup_version fo (rel_path p (obj_key obj)) ?lp env st = (r1, st1)"
      by (cases "backup_version fo (rel_path p (obj_key obj)) ?lp env st")
    note fv = backup_version_result [OF ver]
    have r1: "r1 = None"
      using fv ve by (auto split: if_splits)
    obtain res ok st2 where run: "backup_attempts obj ?lp r env [0, 1, 2] st1 = (res, ok, st2)"
      by (cases "backup_attempts obj ?lp r env [0, 1, 2] st1") auto
    have u: "up_to_date (backup_history st2) obj"
      by (rule backup_attempts_up_to_date [OF run v0])
    have ok: "ok = (res = None)"
      using backup_attempts_result [OF run] by simp
    have obj: "backup_object v p fo obj env st =
       (case res of None \<Rightarrow> (None, st2)
        | Some e \<Rightarrow> (None, (write_log (LogBackupFailed (obj_key obj) e) st2)
                               \<lparr>b_consecutive_errors := b_consecutive_errors st2 + 1\<rparr>))"
      using Pair True mk ver [unfolded local_path_of_def] run [unfolded local_path_of_def] r1 ok
      by (simp add: backup_object_def backup_download_def upt_max_retries Let_def
            split: option.splits)
    show ?thesis
      using u unfolding obj by (cases res) (auto simp: write_log_def)
  qed
qed

text \<open>The first cycle: every listed object ends up to date.\<close>

lemma monitor_objects_keeps:
  assumes "obj_key other \<notin> obj_key ` fst ` set objs"
  shows "up_to_date (last_seen (monitor_objects v p fo objs st)) other = up_to_date (last_seen st) other"
  using monitor_objects_frame [of objs p fo st v] assms
  by (intro up_to_date_cong) (simp add: monitor_frame_def)

lemma monitor_pages_keeps:
  assumes "obj_key other \<notin> obj_key ` fst ` set (entries ps)"
  shows "up_to_date (last_seen (snd (monitor_pages v p fo ps st))) other = up_to_date (last_seen st) other"
  using monitor_pages_frame [of ps p fo st v] assms
  by (intro up_to_date_cong) (simp add: monitor_frame_def)

lemma monitor_objects_all_up_to_date:
  assumes "distinct (map (\<lambda>oe. obj_key (fst oe)) objs)" and "\<forall>oe \<in> set objs. verified_at_once oe"
  shows "\<forall>oe \<in> set objs. up_to_date (last_seen (monitor_objects v p fo objs st)) (fst oe)"
  using assms
proof (induction objs arbitrary: st)
  case Nil
  show ?case by simp
next
  case (Cons oe objs)
  obtain obj env where oe: "oe = (obj, env)" by (cases oe)
  let ?st1 = "monitor_object v p fo obj env (st\<lparr>effects := effects st @ [StopCheck]\<rparr>)"
  have good: "\<not> stop_requested env" "makedirs_error env = None" "size_verified obj env 0"
    using Cons.prems(2) by (simp_all add: oe verified_at_once_def)
  have step: "monitor_objects v p fo (oe # objs) st = monitor_objects v p fo objs ?st1"
    using good by (simp add: oe Let_def)
  have fresh: "obj_key obj \<notin> obj_key ` fst ` set objs"
    using Cons.prems(1) by (auto simp: oe)
  have head: "up_to_date (last_seen (monitor_objects v p fo objs ?st1)) obj"
    using monitor_objects_keeps [OF fresh, of v p fo ?st1]
      monitor_object_up_to_date [OF good(2) good(3), of v p fo]
    by simp
  have tail: "\<forall>oe \<in> set objs. up_to_date (last_seen (monitor_objects v p fo objs ?st1)) (fst oe)"
    using Cons.IH [of ?st1] Cons.prems by simp
  show ?case
    using head tail by (simp add: step) (simp add: oe)
qed

lemma monitor_pages_all_up_to_date:
  assumes "distinct (map (\<lambda>oe. obj_key (fst oe)) (entries ps))"
    and "\<forall>pg \<in> set ps. page_fetched pg"
    and "\<forall>oe \<in> set (entries ps). verified_at_once oe"
  shows "\<forall>oe \<in> set (entries ps).
           up_to_date (last_seen (snd (monitor_pages v p fo ps st))) (fst oe)"
  using assms
proof (induction ps arbitrary: st)
  case Nil
  show ?case by simp
next
  case (Cons pg ps)
  from Cons.prems(2) obtain stop contents where pg: "pg = Page stop contents"
    by (cases pg) auto
  let ?st1 = "case contents of None \<Rightarrow> st | Some objs \<Rightarrow> monitor_objects v p fo objs st"
  have step: "monitor_pages v p fo (pg # ps) st = monitor_pages v p fo ps ?st1"
    by (simp add: pg)
  have tail: "\<forall>oe \<in> set (entries ps).
           up_to_date (last_seen (snd (monitor_pages v p fo ps ?st1))) (fst oe)"
    using Cons.IH [of ?st1] Cons.prems by simp
  have head: "\<forall>oe \<in> set (page_entries pg).
           up_to_date (last_seen (snd (monitor_pages v p fo ps ?st1))) (fst oe)"
  proof (cases contents)
    case None
    then show ?thesis by (simp add: pg)
  next
    case (Some objs)
    have here: "\<forall>oe \<in> set objs. up_to_date (last_seen (monitor_objects v p fo objs st)) (fst oe)"
      using monitor_objects_all_up_to_date [of objs v p fo st] Cons.prems
      by (simp add: pg Some)
    show ?thesis
    proof
      fix oe assume m: "oe \<in> set (page_entries pg)"
      then have "oe \<in> set objs" by (simp add: pg Some)
      have fresh: "obj_key (fst oe) \<notin> obj_key ` fst ` set (entries ps)"
        using Cons.prems(1) m by (auto simp: pg Some)
      show "up_to_date (last_seen (snd (monitor_pages v p fo ps ?st1))) (fst oe)"
        using monitor_pages_keeps [OF fresh, of v p fo ?st1] here \<open>oe \<in> set objs\<close>
        by (simp add: Some)
    qed
  qed
  show ?case
    using head tail by (auto simp: step)
qed

lemma backup_objects_keeps:
  assumes "obj_key other \<notin> obj_key ` fst ` set objs"
  shows "up_to_date (backup_history (snd (backup_objects v p fo objs st))) other
         = up_to_date (backup_history st) other"
  using backup_objects_frame [of objs p fo st v] assms
  by (intro up_to_date_cong) (simp add: backup_frame_def)

lemma backup_pages_keeps:
  assumes "obj_key other \<notin> obj_key ` fst ` set (entries ps)"
  shows "up_to_date (backup_history (snd (backup_pages v p fo ps st))) other
         = up_to_date (backup_history st) other"
  using backup_pages_frame [of ps p fo st v] assms
  by (intro up_to_date_cong) (simp add: backup_frame_def)

lemma backup_objects_all_up_to_date:
  assumes "distinct (map (\<lambda>oe. obj_key (fst oe)) objs)"
    and "\<forall>oe \<in> set objs. verified_at_once oe \<and> versions_error (snd oe) = None"
  shows "fst (backup_objects v p fo objs st) = None
     \<and> (\<forall>oe \<in> set objs. up_to_date (backup_history (snd (backup_objects v p fo objs st))) (fst oe))"
  using assms
proof (induction objs arbitrary: st)
  case Nil
  show ?case by simp
next
  case (Cons oe objs)
  obtain obj env where oe: "oe = (obj, env)" by (cases oe)
  let ?st0 = "st\<lparr>effects := effects st @ [StopCheck]\<rparr>"
  let ?st1 = "snd (backup_object v p fo obj env ?st0)"
  have good: "\<not> stop_requested env" "makedirs_error env = None" "size_verified obj env 0"
      "versions_error env = None"
    using Cons.prems(2) by (simp_all add: oe verified_at_once_def)
  note o = backup_object_up_to_date [OF good(2) good(3) good(4), of v p fo ?st0]
  have step: "backup_objects v p fo (oe # objs) st = backup_objects v p fo objs ?st1"
    using good o by (cases "backup_object v p fo obj env ?st0") (simp add: oe Let_def)
  have fresh: "obj_key obj \<notin> obj_key ` fst ` set objs"
    using Cons.prems(1) by (auto simp: oe)
  have head: "up_to_date (backup_history (snd (backup_objects v p fo objs ?st1))) obj"
    using backup_objects_keeps [OF fresh, of v p fo ?st1] o by simp
  have tail: "fst (backup_objects v p fo objs ?st1) = None
     \<and> (\<forall>oe \<in> set objs. up_to_date (backup_history (snd (backup_objects v p fo objs ?st1))) (fst oe))"
    using Cons.IH [of ?st1] Cons.prems by simp
  show ?case
    using head tail by (simp add: step) (simp add: oe)
qed

lemma backup_pages_all_up_to_date:
  assumes "distinct (map (\<lambda>oe. obj_key (fst oe)) (entries ps))"
    and "\<forall>pg \<in> set ps. page_fetched pg \<and> \<not> page_stop pg"
    and "\<forall>oe \<in> set (entries ps). verified_at_once oe \<and> versions_error (snd oe) = None"
  shows "fst (backup_pages v p fo ps st) = None
     \<and> (\<forall>oe \<in> set (entries ps).
           up_to_date (backup_history (snd (backup_pages v p fo ps st))) (fst oe))"
  using assms
proof (induction ps arbitrary: st)
  case Nil
  show ?case by simp
next
  case (Cons pg ps)
  from Cons.prems(2) obtain contents where pg: "pg = Page False contents"
    by (cases pg) auto
  let ?st0 = "st\<lparr>effects := effects st @ [StopCheck]\<rparr>"
  let ?st1 = "case contents of None \<Rightarrow> ?st0 | Some objs \<Rightarrow> snd (backup_objects v p fo objs ?st0)"
  have this_page: "(case contents of None \<Rightarrow> True
                    | Some objs \<Rightarrow> fst (backup_objects v p fo objs ?st0) = None
     \<and> (\<forall>oe \<in> set objs. up_to_date (backup_history (snd (backup_objects v p fo objs ?st0))) (fst oe)))"
  proof (cases contents)
    case None
    then show ?thesis by simp
  next
    case (Some objs)
    then show ?thesis
      using backup_objects_all_up_to_date [of objs v p fo ?st0] Cons.prems
      by (simp add: pg)
  qed
  have step: "backup_pages v p fo (pg # ps) st = backup_pages v p fo ps ?st1"
    using this_page
    by (cases contents) (auto simp: pg Let_def split: prod.splits option.splits)
  have tail: "fst (backup_pages v p fo ps ?st1) = None
     \<and> (\<forall>oe \<in> set (entries ps).
           up_to_date (backup_history (snd (backup_pages v p fo ps ?st1))) (fst oe))"
    using Cons.IH [of ?st1] Cons.prems by simp
  have head: "\<forall>oe \<in> set (page_entries pg).
           up_to_date (backup_history (snd (backup_pages v p fo ps ?st1))) (fst oe)"
  proof (cases contents)
    case None
    then show ?thesis by (simp add: pg)
  next
    case (Some objs)
    show ?thesis
    proof
      fix oe assume m: "oe \<in> set (page_entries pg)"
      then have mem: "oe \<in> set objs" by (simp add: pg Some)
      have fresh: "obj_key (fst oe) \<notin> obj_key ` fst ` set (entries ps)"
        using Cons.prems(1) m by (auto simp: pg Some)
      show "up_to_date (backup_history (snd (backup_pages v p fo ps ?st1))) (fst oe)"
        using backup_pages_keeps [OF fresh, of v p fo ?st1] this_page mem
        by (simp add: Some)
    qed
  qed
  show ?case
    using head tail by (auto simp: step)
qed

text \<open>The second cycle: nothing to do for objects that are up to date.\<close>

lemma monitor_objects_idle:
  assumes "\<forall>oe \<in> set objs. up_to_date (last_seen st) (fst oe)"
  shows "last_seen (monitor_objects v p fo objs st) = last_seen st
     \<and> filter is_download (effects (monitor_objects v p fo objs st)) = filter is_download (effects st)"
  using assms
proof (induction objs arbitrary: st)
  case Nil
  show ?case by simp
next
  case (Cons oe objs)
  obtain obj env where oe: "oe = (obj, env)" by (cases oe)
  let ?st0 = "st\<lparr>effects := effects st @ [StopCheck]\<rparr>"
  let ?st1 = "monitor_object v p fo obj env ?st0"
  have d: "monitor_detect (last_seen ?st0) (obj_key obj) (obj_last_modified obj) (etag_of obj) = None"
    using Cons.prems by (simp add: oe up_to_date_monitor)
  have o: "last_seen ?st1 = last_seen st" "effects ?st1 = effects st @ [StopCheck]"
    using d by (simp_all add: monitor_object_def Let_def)
  have "\<forall>oe \<in> set objs. up_to_date (last_seen ?st1) (fst oe)"
    using Cons.prems o by simp
  from Cons.IH [OF this] o show ?case
    by (simp add: oe Let_def)
qed

lemma monitor_pages_idle:
  assumes "\<forall>oe \<in> set (entries ps). up_to_date (last_seen st) (fst oe)"
  shows "last_seen (snd (monitor_pages v p fo ps st)) = last_seen st
     \<and> filter is_download (effects (snd (monitor_pages v p fo ps st)))
         = filter is_download (effects st)"
  using assms
proof (induction ps arbitrary: st)
  case Nil
  show ?case by simp
next
  case (Cons pg ps)
  show ?case
  proof (cases pg)
    case (ListingError e)
    then show ?thesis by simp
  next
    case (Page stop contents)
    let ?st1 = "case contents of None \<Rightarrow> st | Some objs \<Rightarrow> monitor_objects v p fo objs st"
    have one: "last_seen ?st1 = last_seen st
       \<and> filter is_download (effects ?st1) = filter is_download (effects st)"
    proof (cases contents)
      case None
      then show ?thesis by simp
    next
      case (Some objs)
      then show ?thesis
        using monitor_objects_idle [of objs st v p fo] Cons.prems by (simp add: Page)
    qed
    have "\<forall>oe \<in> set (entries ps). up_to_date (last_seen ?st1) (fst oe)"
      using Cons.prems one by simp
    from Cons.IH [OF this] one show ?thesis
      by (simp add: Page)
  qed
qed

lemma backup_objects_idle:
  assumes "\<forall>oe \<in> set objs. up_to_date (backup_history st) (fst oe)"
  shows "backup_history (snd (backup_objects v p fo objs st)) = backup_history st
     \<and> filter is_download (effects (snd (backup_objects v p fo objs st)))
         = filter is_download (effects st)"
  using assms
proof (induction objs arbitrary: st)
  case Nil
  show ?case by simp
next
  case (Cons oe objs)
  obtain obj env where oe: "oe = (obj, env)" by (cases oe)
  let ?st0 = "st\<lparr>effects := effects st @ [StopCheck]\<rparr>"
  obtain r where d: "backup_detect (backup_history ?st0) (obj_key obj) (obj_last_modified obj)
       (etag_of obj) = (False, r)"
    using Cons.prems
    by (cases "backup_detect (backup_history ?st0) (obj_key obj) (obj_last_modified obj)
                 (etag_of obj)")
       (simp add: oe up_to_date_backup)
  obtain st1 where o: "backup_object v p fo obj env ?st0 = (None, st1)"
      "backup_history st1 = backup_history st" "effects st1 = effects st @ [StopCheck]"
    using d by (simp add: backup_object_def write_log_def Let_def)
  have "\<forall>oe \<in> set objs. up_to_date (backup_history st1) (fst oe)"
    using Cons.prems o by simp
  from Cons.IH [OF this] o show ?case
    by (simp add: oe Let_def)
qed

lemma backup_pages_idle:
  assumes "\<forall>oe \<in> set (entries ps). up_to_date (backup_history st) (fst oe)"
  shows "backup_history (snd (backup_pages v p fo ps st)) = backup_history st
     \<and> filter is_download (effects (snd (backup_pages v p fo ps st)))
         = filter is_download (effects st)"
  using assms
proof (induction ps arbitrary: st)
  case Nil
  show ?case by simp
next
  case (Cons pg ps)
  show ?case
  proof (cases pg)
    case (ListingError e)
    then show ?thesis by simp
  next
    case (Page stop contents)
    let ?st0 = "st\<lparr>effects := effects st @ [StopCheck]\<rparr>"
    show ?thesis
    proof (cases stop)
      case True
      with Page show ?thesis by (simp add: write_log_def Let_def)
    next
      case False
      show ?thesis
      proof (cases contents)
        case None
        have "\<forall>oe \<in> set (entries ps). up_to_date (backup_history ?st0) (fst oe)"
          using Cons.prems by simp
        from Cons.IH [OF this] show ?thesis
          by (simp add: Page False None Let_def)
      next
        case (Some objs)
        obtain r1 st1 where o: "backup_objects v p fo objs ?st0 = (r1, st1)"
          by (cases "backup_objects v p fo objs ?st0")
        have one: "backup_history st1 = backup_history st
           \<and> filter is_download (effects st1) = filter is_download (effects st)"
          using backup_objects_idle [of objs ?st0 v p fo] Cons.prems o
          by (simp add: Page Some)
        have "\<forall>oe \<in> set (entries ps). up_to_date (backup_history st1) (fst oe)"
          using Cons.prems one by simp
        from Cons.IH [OF this] one o show ?thesis
          by (cases r1) (simp_all add: Page False Some Let_def)
      qed
    qed
  qed
qed

lemma monitor_cycle_effects:
  "effects (monitor_cycle v b p f env st) = effects (snd (monitor_pass v p f env st))"
  by (simp add: monitor_cycle_def save_backup_metadata_def Let_def
      split: prod.splits option.splits sum.splits)

lemma backup_cycle_effects:
  "effects (backup_cycle v b p f env st) = effects (snd (backup_pass v p f env st))"
  by (simp add: backup_cycle_def save_backup_metadata_def write_log_def Let_def
      split: prod.splits option.splits sum.splits)

lemma monitor_cycle_idle:
  assumes "\<forall>obj \<in> set (listed (pages env)). up_to_date (last_seen st) obj"
  shows "last_seen (monitor_cycle v b p fo env st) = last_seen st
     \<and> filter is_download (effects (monitor_cycle v b p fo env st)) = filter is_download (effects st)"
  using monitor_pages_idle [of "pages env"
      "st\<lparr>m_consecutive_errors := 0, files_checked := 0, files_downloaded := 0\<rparr>" v p fo] assms
  by (simp add: monitor_cycle_fields monitor_cycle_effects monitor_pass_def listed_def)

lemma backup_cycle_idle:
  assumes "\<forall>obj \<in> set (listed (pages env)). up_to_date (backup_history st) obj"
  shows "backup_history (backup_cycle v b p fo env st) = backup_history st
     \<and> filter is_download (effects (backup_cycle v b p fo env st)) = filter is_download (effects st)"
  using backup_pages_idle [of "pages env"
      "(write_log (LogBackupStarted (backup_count st + 1))
          (st\<lparr>backup_count := backup_count st + 1, files_backed_up := 0,
               files_skipped := 0, total_size := 0\<rparr>))\<lparr>b_consecutive_errors := 0\<rparr>" v p fo] assms
  by (simp add: backup_cycle_fields backup_cycle_effects backup_pass_def listed_def
      write_log_def Let_def)

lemma monitor_cycle_all_up_to_date:
  assumes "distinct (map obj_key (listed (pages env)))"
    and "\<forall>pg \<in> set (pages env). page_fetched pg"
    and "\<forall>oe \<in> set (entries (pages env)). verified_at_once oe"
  shows "\<forall>obj \<in> set (listed (pages env)). up_to_date (last_seen (monitor_cycle v b p fo env st)) obj"
  using monitor_pages_all_up_to_date [of "pages env" v p fo
      "st\<lparr>m_consecutive_errors := 0, files_checked := 0, files_downloaded := 0\<rparr>"] assms
  by (simp add: monitor_cycle_fields monitor_pass_def listed_def comp_def)

lemma backup_cycle_all_up_to_date:
  assumes "distinct (map obj_key (listed (pages env)))"
    and "\<forall>pg \<in> set (pages env). page_fetched pg \<and> \<not> page_stop pg"
    and "\<forall>oe \<in> set (entries (pages env)). verified_at_once oe \<and> versions_error (snd oe) = None"
  shows "\<forall>obj \<in> set (listed (pages env)).
           up_to_date (backup_history (backup_cycle v b p fo env st)) obj"
  using backup_pages_all_up_to_date [of "pages env" v p fo
      "(write_log (LogBackupStarted (backup_count st + 1))
          (st\<lparr>backup_count := backup_count st + 1, files_backed_up := 0,
               files_skipped := 0, total_size := 0\<rparr>))\<lparr>b_consecutive_errors := 0\<rparr>"] assms
  by (simp add: backup_cycle_fields backup_pass_def listed_def comp_def Let_def)

text \<open>
  C9, as stated, fails: when the downloads of \<^verbatim>\<open>a.txt\<close> all fail in the first cycle, no
  entry is stored, and the second cycle over the same listing calls the download again
  and changes the mapping.
\<close>

theorem failed_download_repeated_next_cycle:
  "listed (pages (cycle_of [Page False (Some [(a_txt, env_ok)])]))
     = listed (pages (cycle_of [Page False (Some [(a_txt, env_raising)])]))
   \<and> last_seen (monitor_cycle False ''b'' [] ''/m'' (cycle_of [Page False (Some [(a_txt, env_raising)])])
        (monitor_start ''/m'' 60 [] empty_world)) = []
   \<and> last_seen (monitor_cycle False ''b'' [] ''/m'' (cycle_of [Page False (Some [(a_txt, env_ok)])])
        (monitor_cycle False ''b'' [] ''/m'' (cycle_of [Page False (Some [(a_txt, env_raising)])])
           (monitor_start ''/m'' 60 [] empty_world))) = [(''a.txt'', a_txt_entry)]
   \<and> filter is_download (effects (monitor_cycle False ''b'' [] ''/m''
        (cycle_of [Page False (Some [(a_txt, env_ok)])])
        (monitor_cycle False ''b'' [] ''/m'' (cycle_of [Page False (Some [(a_txt, env_raising)])])
           (monitor_start ''/m'' 60 [] empty_world))))
     = filter is_download (effects (monitor_cycle False ''b'' [] ''/m''
        (cycle_of [Page False (Some [(a_txt, env_raising)])])
           (monitor_start ''/m'' 60 [] empty_world)))
       @ [Download ''a.txt'' ''/m/a.txt'']"
  by (simp add: monitor_cycle_fields monitor_cycle_effects listed_def eval_defs)

text \<open>
  C9, amended. When the first cycle lists distinct keys without a listing error (and, in
  the backup, without a stop request at a page or a failure to create \<^verbatim>\<open>.versions\<close>) and
  reaches and verifies every listed object at its first attempt, the second cycle over
  the same listing calls no download and leaves the mapping as it was, whatever its own
  environment. More generally a cycle does so from any state in which the stored entry
  of every listed object classifies it as unchanged.
\<close>

theorem second_cycle_idle_after_verified_first:
  "(distinct (map obj_key (listed (pages ca)))
    \<and> (\<forall>pg \<in> set (pages ca). page_fetched pg)
    \<and> (\<forall>oe \<in> set (entries (pages ca)). verified_at_once oe)
    \<and> listed (pages cb) = listed (pages ca) \<longrightarrow>
      last_seen (monitor_cycle v b p fo cb (monitor_cycle v b p fo ca st))
        = last_seen (monitor_cycle v b p fo ca st)
      \<and> filter is_download (effects (monitor_cycle v b p fo cb (monitor_cycle v b p fo ca st)))
        = filter is_download (effects (monitor_cycle v b p fo ca st)))
   \<and> (distinct (map obj_key (listed (pages ca)))
    \<and> (\<forall>pg \<in> set (pages ca). page_fetched pg \<and> \<not> page_stop pg)
    \<and> (\<forall>oe \<in> set (entries (pages ca)). verified_at_once oe \<and> versions_error (snd oe) = None)
    \<and> listed (pages cb) = listed (pages ca) \<longrightarrow>
      backup_history (backup_cycle v b p fo cb (backup_cycle v b p fo ca bst))
        = backup_history (backup_cycle v b p fo ca bst)
      \<and> filter is_download (effects (backup_cycle v b p fo cb (backup_cycle v b p fo ca bst)))
        = filter is_download (effects (backup_cycle v b p fo ca bst)))
   \<and> ((\<forall>obj \<in> set (listed (pages cb)). up_to_date (last_seen st) obj) \<longrightarrow>
      last_seen (monitor_cycle v b p fo cb st) = last_seen st
      \<and> filter is_download (effects (monitor_cycle v b p fo cb st)) = filter is_download (effects st))
   \<and> ((\<forall>obj \<in> set (listed (pages cb)). up_to_date (backup_history bst) obj) \<longrightarrow>
      backup_history (backup_cycle v b p fo cb bst) = backup_history bst
      \<and> filter is_download (effects (backup_cycle v b p fo cb bst))
          = filter is_download (effects bst))"
proof (intro conjI impI)
  assume h: "distinct (map obj_key (listed (pages ca)))
    \<and> (\<forall>pg \<in> set (pages ca). page_fetched pg)
    \<and> (\<forall>oe \<in> set (entries (pages ca)). verified_at_once oe)
    \<and> listed (pages cb) = listed (pages ca)"
  then have "\<forall>obj \<in> set (listed (pages cb)).
      up_to_date (last_seen (monitor_cycle v b p fo ca st)) obj"
    using monitor_cycle_all_up_to_date [of ca v b p fo st] by simp
  from monitor_cycle_idle [OF this, of v b p fo]
  show "last_seen (monitor_cycle v b p fo cb (monitor_cycle v b p fo ca st))
        = last_seen (monitor_cycle v b p fo ca st)"
    and "filter is_download (effects (monitor_cycle v b p fo cb (monitor_cycle v b p fo ca st)))
        = filter is_download (effects (monitor_cycle v b p fo ca st))"
    by simp_all
next
  assume h: "distinct (map obj_key (listed (pages ca)))
    \<and> (\<forall>pg \<in> set (pages ca). page_fetched pg \<and> \<not> page_stop pg)
    \<and> (\<forall>oe \<in> set (entries (pages ca)). verified_at_once oe \<and> versions_error (snd oe) = None)
    \<and> listed (pages cb) = listed (pages ca)"
  then have "\<forall>obj \<in> set (listed (pages cb)).
      up_to_date (backup_history (backup_cycle v b p fo ca bst)) obj"
    using backup_cycle_all_up_to_date [of ca v b p fo bst] by simp
  from backup_cycle_idle [OF this, of v b p fo]
  show "backup_history (backup_cycle v b p fo cb (backup_cycle v b p fo ca bst))
        = backup_history (backup_cycle v b p fo ca bst)"
    and "filter is_download (effects (backup_cycle v b p fo cb (backup_cycle v b p fo ca bst)))
        = filter is_download (effects (backup_cycle v b p fo ca bst))"
    by simp_all
next
  assume h: "\<forall>obj \<in> set (listed (pages cb)). up_to_date (last_seen st) obj"
  from monitor_cycle_idle [OF h, of v b p fo]
  show "last_seen (monitor_cycle v b p fo cb st) = last_seen st"
    and "filter is_download (effects (monitor_cycle v b p fo cb st)) = filter is_download (effects st)"
    by simp_all
next
  assume h: "\<forall>obj \<in> set (listed (pages cb)). up_to_date (backup_history bst) obj"
  from backup_cycle_idle [OF h, of v b p fo]
  show "backup_history (backup_cycle v b p fo cb bst) = backup_history bst"
    and "filter is_download (effects (backup_cycle v b p fo cb bst))
          = filter is_download (effects bst)"
    by simp_all
qed

theorem second_cycle_idle_after_verified_first_witness:
  "last_seen (monitor_cycle False ''b'' [] ''/m'' (cycle_of [Page False (Some [(a_txt, env_raising)])])
      (monitor_cycle False ''b'' [] ''/m'' (cycle_of [Page False (Some [(a_txt, env_ok)])])
         (monitor_start ''/m'' 60 [] empty_world)))
     = last_seen (monitor_cycle False ''b'' [] ''/m'' (cycle_of [Page False (Some [(a_txt, env_ok)])])
         (monitor_start ''/m'' 60 [] empty_world))
   \<and> filter is_download (effects (monitor_cycle False ''b'' [] ''/m''
      (cycle_of [Page False (Some [(a_txt, env_raising)])])
      (monitor_cycle False ''b'' [] ''/m'' (cycle_of [Page False (Some [(a_txt, env_ok)])])
         (monitor_start ''/m'' 60 [] empty_world))))
     = filter is_download (effects (monitor_cycle False ''b'' [] ''/m''
         (cycle_of [Page False (Some [(a_txt, env_ok)])]) (monitor_start ''/m'' 60 [] empty_world)))
   \<and> backup_history (backup_cycle False ''b'' [] ''/m''
      (cycle_of [Page False (Some [(a_txt, env_raising)])])
      (backup_cycle False ''b'' [] ''/m'' (cycle_of [Page False (Some [(a_txt, env_ok)])])
         (backup_start ''/m'' 10 empty_world)))
     = backup_history (backup_cycle False ''b'' [] ''/m''
         (cycle_of [Page False (Some [(a_txt, env_ok)])]) (backup_start ''/m'' 10 empty_world))
   \<and> last_seen (monitor_cycle False ''b'' [] ''/m'' (cycle_of [Page False (Some [(a_txt, env_raising)])])
        (monitor_start ''/m'' 60 [(''a.txt'', InfoLegacy (PDatetime 100))] empty_world))
     = [(''a.txt'', InfoLegacy (PDatetime 100))]
   \<and> backup_history (backup_cycle False ''b'' [] ''/m''
        (cycle_of [Page False (Some [(a_txt, env_raising)])])
        ((backup_start ''/m'' 10 empty_world)\<lparr>backup_history := [(''a.txt'', a_txt_entry)]\<rparr>))
     = [(''a.txt'', a_txt_entry)]"
  using second_cycle_idle_after_verified_first
    [where ca = "cycle_of [Page False (Some [(a_txt, env_ok)])]"
       and cb = "cycle_of [Page False (Some [(a_txt, env_raising)])]"
       and v = False and b = "''b''" and p = "[]" and fo = "''/m''"
       and st = "monitor_start ''/m'' 60 [] empty_world"
       and bst = "backup_start ''/m'' 10 empty_world"]
    second_cycle_idle_after_verified_first
    [where ca = "cycle_of [Page False (Some [(a_txt, env_ok)])]"
       and cb = "cycle_of [Page False (Some [(a_txt, env_raising)])]"
       and v = False and b = "''b''" and p = "[]" and fo = "''/m''"
       and st = "monitor_start ''/m'' 60 [(''a.txt'', InfoLegacy (PDatetime 100))] empty_world"
       and bst = "(backup_start ''/m'' 10 empty_world)\<lparr>backup_history := [(''a.txt'', a_txt_entry)]\<rparr>"]
  by (simp add: listed_def cycle_of_def verified_at_once_def size_verified_def env_ok_def
      env_raising_def abc_file_def a_txt_def size_of_def etag_of_def strip_quotes_def
      up_to_date_def classify_spec_def dict_get_def a_txt_entry_def monitor_start_def
      backup_start_def empty_world_def load_backup_metadata_def)


end
